theory Spec2Isabelle
  imports Complex_Main
begin

section \<open>Video script generator: strings of the embedding\<close>

text \<open>
  The program is \<^verbatim>\<open>src/lib/generate-script.ts\<close> (the pure pipeline
  \<^verbatim>\<open>generateVideoScript\<close>) together with the two helpers of the page component that
  encode a form as URL query parameters and read it back.

  A JavaScript string is a sequence of 16-bit code units; it is modelled as the list of
  their values. No function of the source computes with a code unit, so the values are
  natural numbers and nothing wraps around. \<open>js\<close> turns a literal of ASCII text into
  such a list.
\<close>

type_synonym jschar = nat

type_synonym jsstring = "nat list"

definition ch :: "char \<Rightarrow> jschar" where
  "ch c = of_char c"

definition js :: "string \<Rightarrow> jsstring" where
  "js s = map ch s"

subsection \<open>Character classes\<close>

definition is_space :: "jschar \<Rightarrow> bool" where
  \<comment> \<open>\<^verbatim>\<open>\s\<close>, which is also what \<^verbatim>\<open>trim\<close> strips: the white space and the line
      terminators of ECMAScript, that is TAB, LF, VT, FF, CR, SPACE, U+00A0, U+1680,
      U+2000 to U+200A, U+2028, U+2029, U+202F, U+205F, U+3000 and U+FEFF\<close>
  "is_space c \<longleftrightarrow>
     c \<in> set [0x09, 0x0A, 0x0B, 0x0C, 0x0D, 0x20, 0xA0, 0x1680, 0x2028, 0x2029, 0x202F,
               0x205F, 0x3000, 0xFEFF]
     \<or> 0x2000 \<le> c \<and> c \<le> 0x200A"

definition is_upper :: "jschar \<Rightarrow> bool" where
  \<comment> \<open>\<^verbatim>\<open>[A-Z]\<close>\<close>
  "is_upper c \<longleftrightarrow> 0x41 \<le> c \<and> c \<le> 0x5A"

definition is_lower :: "jschar \<Rightarrow> bool" where
  \<comment> \<open>\<^verbatim>\<open>[a-z]\<close>\<close>
  "is_lower c \<longleftrightarrow> 0x61 \<le> c \<and> c \<le> 0x7A"

definition is_digit :: "jschar \<Rightarrow> bool" where
  \<comment> \<open>\<^verbatim>\<open>[0-9]\<close>\<close>
  "is_digit c \<longleftrightarrow> 0x30 \<le> c \<and> c \<le> 0x39"

definition is_word_char :: "jschar \<Rightarrow> bool" where
  \<comment> \<open>\<^verbatim>\<open>\w\<close>, the class that decides a word boundary \<^verbatim>\<open>\b\<close>\<close>
  "is_word_char c \<longleftrightarrow> is_upper c \<or> is_lower c \<or> is_digit c \<or> c = ch (CHR ''_'')"

definition lower_char :: "jschar \<Rightarrow> jschar" where
  \<comment> \<open>the letters \<^verbatim>\<open>A\<close> to \<^verbatim>\<open>Z\<close> to lower case: the canonical form under which a
      pattern with the flag \<^verbatim>\<open>i\<close> and without the flag \<^verbatim>\<open>u\<close> compares an ASCII letter\<close>
  "lower_char c = (if is_upper c then c + 32 else c)"

definition upper_char :: "jschar \<Rightarrow> jschar" where
  "upper_char c = (if is_lower c then c - 32 else c)"

subsection \<open>Case mappings\<close>

text \<open>
  \<^verbatim>\<open>toLowerCase\<close> and \<^verbatim>\<open>toUpperCase\<close> follow the case mapping tables of Unicode,
  which are no part of the program. They are a parameter \<open>u\<close> of every function that
  uses them, and a statement about such a function holds for whatever the two mappings
  are, unless it names what it needs of them (only the statement on the keyword list
  does, see \<open>lower_case_mapping\<close>). \<open>ascii_casing\<close> maps the ASCII letters only; on
  ASCII text it is what the two methods do, and the examples of this theory, in which the
  two methods meet ASCII text only, are computed with it.
\<close>

record casing =
  toLowerCase :: "jsstring \<Rightarrow> jsstring"
  toUpperCase :: "jsstring \<Rightarrow> jsstring"

definition ascii_casing :: casing where
  "ascii_casing = \<lparr>toLowerCase = map lower_char, toUpperCase = map upper_char\<rparr>"

subsection \<open>String methods\<close>

definition trim :: "jsstring \<Rightarrow> jsstring" where
  "trim s = rev (dropWhile is_space (rev (dropWhile is_space s)))"

fun starts_with :: "jsstring \<Rightarrow> jsstring \<Rightarrow> bool" where
  "starts_with s [] = True"
| "starts_with [] (p # ps) = False"
| "starts_with (c # cs) (p # ps) = (c = p \<and> starts_with cs ps)"

fun str_includes :: "jsstring \<Rightarrow> jsstring \<Rightarrow> bool" where
  \<comment> \<open>\<^verbatim>\<open>s.includes(t)\<close>: \<open>t\<close> occurs in \<open>s\<close> as a contiguous substring\<close>
  "str_includes [] t = (t = [])"
| "str_includes (c # cs) t = (starts_with (c # cs) t \<or> str_includes cs t)"

text \<open>
  \<^verbatim>\<open>s.split(/X+/)\<close> for a character class \<open>X\<close>: the pieces between the maximal runs
  of separator characters. As in JavaScript, a separator run at the very start or end
  leaves an empty piece there, and the empty string splits into one empty piece.
\<close>

function split_runs :: "(jschar \<Rightarrow> bool) \<Rightarrow> jsstring \<Rightarrow> jsstring list" where
  "split_runs sep s =
     (case dropWhile (\<lambda>c. \<not> sep c) s of
        [] \<Rightarrow> [s]
      | _ # rest \<Rightarrow> takeWhile (\<lambda>c. \<not> sep c) s # split_runs sep (dropWhile sep rest))"
  by pat_completeness auto
termination
proof (relation "measure (\<lambda>(sep, s). length s)")
  show "wf (measure (\<lambda>(sep, s). length s))" by simp
next
  fix sep :: "jschar \<Rightarrow> bool" and s :: jsstring and x :: jschar and rest :: jsstring
  assume a: "dropWhile (\<lambda>c. \<not> sep c) s = x # rest"
  have "length (dropWhile sep rest) \<le> length rest"
    by (rule length_dropWhile_le)
  moreover have "length (x # rest) \<le> length s"
    using length_dropWhile_le [of "\<lambda>c. \<not> sep c" s] a by simp
  ultimately show "((sep, dropWhile sep rest), (sep, s)) \<in> measure (\<lambda>(sep, s). length s)"
    by simp
qed

declare split_runs.simps [simp del]

fun join :: "jsstring \<Rightarrow> jsstring list \<Rightarrow> jsstring" where
  \<comment> \<open>\<^verbatim>\<open>xs.join(sep)\<close>\<close>
  "join sep [] = []"
| "join sep [x] = x"
| "join sep (x # y # ys) = x @ sep @ join sep (y # ys)"

definition capitalize :: "casing \<Rightarrow> jsstring \<Rightarrow> jsstring" where
  \<comment> \<open>the empty string is falsy and is returned as it is; \<^verbatim>\<open>charAt(0)\<close> is the string
      of the first code unit\<close>
  "capitalize u v = (case v of [] \<Rightarrow> [] | c # cs \<Rightarrow> toUpperCase u [c] @ cs)"

fun digits_of :: "nat \<Rightarrow> jsstring" where
  \<comment> \<open>a non-negative integer in a template literal: its decimal digits\<close>
  "digits_of n =
     (if n < 10 then [48 + n] else digits_of (n div 10) @ [48 + n mod 10])"

declare digits_of.simps [simp del]

definition clamp :: "int \<Rightarrow> int \<Rightarrow> int \<Rightarrow> int" where
  "clamp v lo hi = min (max v lo) hi"

definition js_round :: "rat \<Rightarrow> int" where
  \<comment> \<open>\<^verbatim>\<open>Math.round\<close>: the nearest integer, a tie going up. The quotients of the source
      are taken exactly: a count divided by 2.7 is never within 1/54 of a tie (see
      \<open>duration_no_tie\<close>), and the mean of the word counts is a quotient of two integers.\<close>
  "js_round x = \<lfloor>x + 1 / 2\<rfloor>"

definition show_int :: "int \<Rightarrow> jsstring" where
  "show_int i = (if i < 0 then ch (CHR ''-'') # digits_of (nat (- i)) else digits_of (nat i))"

section \<open>Data model\<close>

record ScriptForm =
  topic :: jsstring
  story :: jsstring
  aspectRatio :: jsstring
  mood :: jsstring
  keywords_raw :: jsstring  \<comment> \<open>the field \<^verbatim>\<open>keywords\<close> of the form\<close>
  language :: jsstring

record ScenePlan =
  scene_id :: nat  \<comment> \<open>the field \<^verbatim>\<open>id\<close>\<close>
  label :: jsstring
  voiceover :: jsstring
  duration :: jsstring
  visuals :: jsstring
  overlay :: jsstring
  assets :: "jsstring list"

record MoodProfile =
  pacing :: jsstring
  audio :: jsstring
  colorPalette :: "jsstring list"
  motion :: jsstring
  lighting :: jsstring
  voiceTone :: jsstring
  hookVerb :: jsstring

record AspectConcept =
  framing :: jsstring
  safeZone :: jsstring

text \<open>
  The fields of the result that repeat a name of the form or of the mood profile carry
  the prefix \<open>vs_\<close>. An entry of \<open>productionNotes\<close> is \<open>None\<close> where the source stores
  \<^verbatim>\<open>undefined\<close> in the array.
\<close>

record VideoScript =
  title :: jsstring
  subtitle :: jsstring
  hook :: jsstring
  callToAction :: jsstring
  vs_aspectRatio :: jsstring
  vs_mood :: jsstring
  vs_language :: jsstring
  vs_pacing :: jsstring
  audioRecommendation :: jsstring
  vs_colorPalette :: "jsstring list"
  vs_keywords :: "jsstring list"
  narrationStyle :: jsstring
  scenes :: "ScenePlan list"
  productionNotes :: "jsstring option list"

datatype error = TypeError

subsection \<open>Property lookup on an object literal\<close>

text \<open>
  The three tables are object literals, so \<^verbatim>\<open>TABLE[key]\<close> finds the table's own
  entries and, for any other key, what the key names on \<^verbatim>\<open>Object.prototype\<close>: a
  function or object that is neither \<^verbatim>\<open>null\<close> nor \<^verbatim>\<open>undefined\<close>. The operator
  \<^verbatim>\<open>??\<close> replaces only \<^verbatim>\<open>null\<close> and \<^verbatim>\<open>undefined\<close>.
\<close>

datatype 'a jsval = Undefined | Own 'a | Inherited

datatype 'a resolved = Entry 'a | Proto

definition object_prototype_keys :: "jsstring list" where
  "object_prototype_keys =
     [js ''constructor'', js ''__defineGetter__'', js ''__defineSetter__'', js ''hasOwnProperty'',
      js ''__lookupGetter__'', js ''__lookupSetter__'', js ''isPrototypeOf'', js ''propertyIsEnumerable'',
      js ''toString'', js ''valueOf'', js ''__proto__'', js ''toLocaleString'']"

definition get_prop :: "(jsstring \<times> 'a) list \<Rightarrow> jsstring \<Rightarrow> 'a jsval" where
  "get_prop table key =
     (case map_of table key of
        Some v \<Rightarrow> Own v
      | None \<Rightarrow> if key \<in> set object_prototype_keys then Inherited else Undefined)"

definition nullish_or :: "'a jsval \<Rightarrow> 'a \<Rightarrow> 'a resolved" where
  \<comment> \<open>\<^verbatim>\<open>v ?? d\<close>\<close>
  "nullish_or v d = (case v of Undefined \<Rightarrow> Entry d | Own x \<Rightarrow> Entry x | Inherited \<Rightarrow> Proto)"

definition field :: "('a \<Rightarrow> 'b) \<Rightarrow> 'a resolved \<Rightarrow> 'b option" where
  \<comment> \<open>\<^verbatim>\<open>profile.f\<close>; no member of \<^verbatim>\<open>Object.prototype\<close> has a property named like a
      field of a profile, so there the access gives \<^verbatim>\<open>undefined\<close>, here \<open>None\<close>\<close>
  "field f r = (case r of Entry x \<Rightarrow> Some (f x) | Proto \<Rightarrow> None)"

definition tpl :: "jsstring option \<Rightarrow> jsstring" where
  \<comment> \<open>a value interpolated in a template literal\<close>
  "tpl v = (case v of Some s \<Rightarrow> s | None \<Rightarrow> js ''undefined'')"

definition array_at :: "'a list \<Rightarrow> nat \<Rightarrow> 'a option" where
  \<comment> \<open>\<^verbatim>\<open>xs[i]\<close>, \<^verbatim>\<open>undefined\<close> out of range\<close>
  "array_at xs i = (if i < length xs then Some (xs ! i) else None)"

subsection \<open>Tables\<close>

definition LANGUAGE_LABELS :: "(jsstring \<times> jsstring) list" where
  "LANGUAGE_LABELS =
     [(js ''en'', js ''English''), (js ''es'', js ''Spanish''), (js ''fr'', js ''French''), (js ''de'', js ''German''),
      (js ''pt'', js ''Portuguese''), (js ''it'', js ''Italian''), (js ''ja'', js ''Japanese''),
      (js ''zh'', js ''Mandarin Chinese'')]"

definition calm :: MoodProfile where
  "calm = \<lparr>pacing = js ''even, thoughtful cadence'',
     audio = js ''Soft ambient piano bed with airy pads'',
     colorPalette = [js ''#E6F0FF'', js ''#C9DBF4'', js ''#F4F6FB''],
     motion = js ''gentle parallax moves and slow dolly pushes'',
     lighting = js ''diffused light with cool highlights'',
     voiceTone = js ''warm, reassuring narration'',
     hookVerb = js ''Invite''\<rparr>"

definition energetic :: MoodProfile where
  "energetic = \<lparr>pacing = js ''snappy with dynamic emphasis'',
     audio = js ''Driving electronic beat with rhythmic pulses'',
     colorPalette = [js ''#FFE6AA'', js ''#FF8A65'', js ''#3D5AFE''],
     motion = js ''bold camera sweeps and quick punch-ins'',
     lighting = js ''high contrast with saturated accents'',
     voiceTone = js ''confident and enthusiastic'',
     hookVerb = js ''Energize''\<rparr>"

definition inspirational :: MoodProfile where
  "inspirational = \<lparr>pacing = js ''uplifting, gradually building momentum'',
     audio = js ''Cinematic orchestra with light percussion'',
     colorPalette = [js ''#FFF3E0'', js ''#F8BBD0'', js ''#B39DDB''],
     motion = js ''slow reveals with lens flare accents'',
     lighting = js ''warm backlighting with soft bloom'',
     voiceTone = js ''aspirational and optimistic'',
     hookVerb = js ''Inspire''\<rparr>"

definition MOOD_PROFILES :: "(jsstring \<times> MoodProfile) list" where
  "MOOD_PROFILES =
     [(js ''calm'', calm), (js ''energetic'', energetic), (js ''inspirational'', inspirational)]"

definition DEFAULT_MOOD_PROFILE :: MoodProfile where
  "DEFAULT_MOOD_PROFILE = calm"

definition landscape :: AspectConcept where
  "landscape = \<lparr>framing =
       js ''Landscape compositions with breathable negative space for lower-third overlays.'',
     safeZone =
       js ''Keep essential graphics inside the central 80% to protect against cropping on social platforms.''\<rparr>"

definition vertical :: AspectConcept where
  "vertical = \<lparr>framing =
       js ''Vertical storytelling with stacked layers and motion from bottom to top.'',
     safeZone =
       js ''Constrain text to the middle 60% to avoid UI overlays on short-form platforms.''\<rparr>"

definition square :: AspectConcept where
  "square = \<lparr>framing = js ''Centered compositions with symmetrical graphic arrangements.'',
     safeZone = js ''Use a circular safe zone to keep faces and titles from getting clipped.''\<rparr>"

definition ASPECT_GUIDANCE :: "(jsstring \<times> AspectConcept) list" where
  "ASPECT_GUIDANCE = [(js ''16:9'', landscape), (js ''9:16'', vertical), (js ''1:1'', square)]"

definition DEFAULT_ASPECT_GUIDANCE :: AspectConcept where
  "DEFAULT_ASPECT_GUIDANCE = landscape"

definition STOP_WORDS :: "jsstring list" where
  "STOP_WORDS =
     [js ''a'', js ''an'', js ''and'', js ''are'', js ''as'', js ''at'', js ''be'', js ''by'', js ''for'', js ''from'', js ''how'',
      js ''in'', js ''into'', js ''is'', js ''it'', js ''of'', js ''on'', js ''or'', js ''that'', js ''the'', js ''to'', js ''with'',
      js ''what'', js ''why'', js ''when'', js ''does'', js ''do'', js ''can'', js ''like'', js ''just'']"

section \<open>The pipeline of \<^verbatim>\<open>generate-script.ts\<close>\<close>

subsection \<open>Story segmentation\<close>

text \<open>
  \<^verbatim>\<open>paragraph.split(/(?<=[.!?])\s+(?=[A-Z])/)\<close>: the paragraph is cut at each maximal
  run of white space that follows one of \<^verbatim>\<open>. ! ?\<close> and is followed by a capital
  letter; the run itself is dropped. The first argument holds, reversed, the characters
  of the piece read so far, so its head is the character before the current position.
\<close>

definition sentence_end :: "jschar \<Rightarrow> bool" where
  "sentence_end c \<longleftrightarrow> c \<in> set (js ''.!?'')"

function split_sentences :: "jsstring \<Rightarrow> jsstring \<Rightarrow> jsstring list" where
  "split_sentences acc [] = [rev acc]"
| "split_sentences acc (c # cs) =
     (if is_space c \<and> (case acc of [] \<Rightarrow> False | p # _ \<Rightarrow> sentence_end p)
         \<and> (case dropWhile is_space cs of [] \<Rightarrow> False | d # _ \<Rightarrow> is_upper d)
      then rev acc # split_sentences [] (dropWhile is_space cs)
      else split_sentences (c # acc) cs)"
  by pat_completeness auto
termination
proof (relation "measure (\<lambda>(acc, s). length s)")
  show "wf (measure (\<lambda>(acc, s). length s))" by simp
next
  fix acc :: jsstring and c :: jschar and cs :: jsstring
  have "length (dropWhile is_space cs) \<le> length cs"
    by (rule length_dropWhile_le)
  then show "(([], dropWhile is_space cs), (acc, c # cs)) \<in> measure (\<lambda>(acc, s). length s)"
    by simp
next
  fix acc :: jsstring and c :: jschar and cs :: jsstring
  show "((c # acc, cs), (acc, c # cs)) \<in> measure (\<lambda>(acc, s). length s)"
    by simp
qed

definition default_beats :: "jsstring list" where
  "default_beats =
     [js ''Artificial intelligence studies patterns in data to learn how the world works.'',
      js ''By watching thousands of examples, it recognizes relationships and makes predictions.'',
      js ''With every iteration, the system fine-tunes itself, improving just like human learning.'']"

definition non_empty :: "jsstring \<Rightarrow> bool" where
  \<comment> \<open>\<^verbatim>\<open>Boolean\<close> as the filter of a list of strings\<close>
  "non_empty s \<longleftrightarrow> s \<noteq> []"

definition story_lines :: "jsstring \<Rightarrow> jsstring list" where
  "story_lines story_text =
     filter non_empty (map trim (split_runs (\<lambda>c. c = 0x0A) story_text))"

definition parseStoryBeats :: "jsstring \<Rightarrow> jsstring list" where
  "parseStoryBeats story_text =
     (let lines = story_lines story_text
      in if length lines = 0 then default_beats
         else concat (map (\<lambda>paragraph.
                filter non_empty (map trim (split_sentences [] paragraph))) lines))"

subsection \<open>Keywords\<close>

definition tokenize :: "casing \<Rightarrow> jsstring \<Rightarrow> jsstring list" where
  \<comment> \<open>lower case, every character outside \<^verbatim>\<open>[a-z0-9\s]\<close> replaced by a space, split at
      white space\<close>
  "tokenize u txt =
     split_runs is_space
       (map (\<lambda>c. if is_lower c \<or> is_digit c \<or> is_space c then c else ch (CHR '' ''))
          (toLowerCase u txt))"

fun count_word :: "(jsstring \<times> nat) list \<Rightarrow> jsstring \<Rightarrow> (jsstring \<times> nat) list" where
  \<comment> \<open>\<^verbatim>\<open>counts.set(word, (counts.get(word) ?? 0) + 1)\<close> on a \<^verbatim>\<open>Map\<close>, whose entries
      stay in the order in which their keys were first set\<close>
  "count_word [] w = [(w, 1)]"
| "count_word ((k, n) # rest) w =
     (if k = w then (k, n + 1) # rest else (k, n) # count_word rest w)"

definition extractKeywordsFromStory :: "casing \<Rightarrow> jsstring \<Rightarrow> jsstring list" where
  \<comment> \<open>the sort of an array is stable, so entries of equal count keep their order\<close>
  "extractKeywordsFromStory u txt =
     (let words = filter (\<lambda>w. length w > 2 \<and> w \<notin> set STOP_WORDS) (tokenize u txt);
          counts = foldl count_word [] words
      in map fst (take 8 (sort_key (\<lambda>(w, n). - int n) counts)))"

definition set_add :: "'a list \<Rightarrow> 'a \<Rightarrow> 'a list" where
  "set_add seen x = (if x \<in> set seen then seen else seen @ [x])"

definition array_from_set :: "'a list \<Rightarrow> 'a list" where
  \<comment> \<open>\<^verbatim>\<open>Array.from(new Set(xs))\<close>: the distinct elements in the order of first insertion\<close>
  "array_from_set xs = foldl set_add [] xs"

text \<open>
  \<^verbatim>\<open>keyword.replace(/\b(ai)\b/gi, "AI")\<close>. The flag is true when the character before
  the current position is a word character. A match needs a word boundary on both
  sides; after a match the scan goes on behind it.
\<close>

fun replace_word_ai :: "bool \<Rightarrow> jsstring \<Rightarrow> jsstring" where
  "replace_word_ai prev (a # i # rest) =
     (if lower_char a = ch (CHR ''a'') \<and> lower_char i = ch (CHR ''i'') \<and> \<not> prev
         \<and> (case rest of [] \<Rightarrow> True | r # _ \<Rightarrow> \<not> is_word_char r)
      then ch (CHR ''A'') # ch (CHR ''I'') # replace_word_ai True rest
      else a # replace_word_ai (is_word_char a) (i # rest))"
| "replace_word_ai prev [a] = [a]"
| "replace_word_ai prev [] = []"

definition providedKeywords :: "casing \<Rightarrow> jsstring \<Rightarrow> jsstring list" where
  "providedKeywords u rawKeywords =
     map (toLowerCase u)
       (filter non_empty (map trim (split_runs (\<lambda>c. c \<in> set [ch (CHR '',''), ch (CHR '';''), 0x0A]) rawKeywords)))"

definition deriveKeywords :: "casing \<Rightarrow> jsstring \<Rightarrow> jsstring \<Rightarrow> jsstring \<Rightarrow> jsstring list" where
  "deriveKeywords u topic_text story_text rawKeywords =
     (let fallbackKeywords = extractKeywordsFromStory u (topic_text @ js ''. '' @ story_text)
      in map (replace_word_ai False)
           (array_from_set (providedKeywords u rawKeywords @ fallbackKeywords)))"

subsection \<open>Scenes\<close>

definition selectKeywordForScene :: "casing \<Rightarrow> jsstring \<Rightarrow> jsstring list \<Rightarrow> nat \<Rightarrow> jsstring" where
  \<comment> \<open>an empty string found by \<^verbatim>\<open>find\<close> is falsy; with no keyword at all the index
      \<^verbatim>\<open>index % 0\<close> is \<^verbatim>\<open>NaN\<close> and both reads give \<^verbatim>\<open>undefined\<close>\<close>
  "selectKeywordForScene u voice kws index =
     (let lowerVoiceover = toLowerCase u voice;
          directMatch = find (\<lambda>keyword. str_includes lowerVoiceover (toLowerCase u keyword)) kws;
          fallback = (if kws = [] then js ''insight'' else kws ! (index mod length kws))
      in case directMatch of
           Some k \<Rightarrow> if k \<noteq> [] then k else fallback
         | None \<Rightarrow> fallback)"

fun replace_ai :: "jsstring \<Rightarrow> jsstring" where
  \<comment> \<open>\<^verbatim>\<open>voiceover.replace(/AI/gi, "AI")\<close>\<close>
  "replace_ai (a # i # rest) =
     (if lower_char a = ch (CHR ''a'') \<and> lower_char i = ch (CHR ''i'')
      then ch (CHR ''A'') # ch (CHR ''I'') # replace_ai rest
      else a # replace_ai (i # rest))"
| "replace_ai [a] = [a]"
| "replace_ai [] = []"

definition condense :: "jsstring \<Rightarrow> jsstring" where
  "condense text =
     join (js '' '')
       (take 6 (filter (\<lambda>w. length w > 2)
          (split_runs is_space
             (filter (\<lambda>c. is_lower c \<or> is_upper c \<or> is_digit c \<or> is_space c) text))))"

definition createOverlay :: "casing \<Rightarrow> jsstring \<Rightarrow> jsstring \<Rightarrow> jsstring" where
  "createOverlay u voice keyword =
     (let condensed = condense (replace_ai voice)
      in if condensed \<noteq> [] then capitalize u condensed
         else js ''Key idea: '' @ capitalize u keyword)"

definition createVisualDirection ::
  "casing \<Rightarrow> jsstring \<Rightarrow> jsstring \<Rightarrow> MoodProfile resolved \<Rightarrow> AspectConcept resolved
     \<Rightarrow> error + jsstring" where
  \<comment> \<open>\<^verbatim>\<open>moodProfile.colorPalette[0]\<close> raises a \<^verbatim>\<open>TypeError\<close> when the palette is
      \<^verbatim>\<open>undefined\<close>\<close>
  "createVisualDirection u voice keyword moodProfile aspectProfile =
     (let lower = toLowerCase u voice
      in if str_includes lower (js ''data'') \<or> str_includes lower (js ''patterns'') then
           Inr (js ''Visualize flowing data points morphing into a neural network mesh; ''
                @ tpl (field motion moodProfile) @ js '' with ''
                @ tpl (field lighting moodProfile) @ js ''.'')
         else if str_includes lower (js ''predict'') \<or> str_includes lower (js ''outcomes'') then
           Inr (js ''Show predictive dashboards coming to life with confident highlights; ''
                @ tpl (field framing aspectProfile))
         else if str_includes lower (js ''learn'') \<or> str_includes lower (js ''training'') then
           Inr (js ''Illustrate an AI training loop with layered animations that progressively refine, paired with ''
                @ tpl (field motion moodProfile) @ js ''.'')
         else if str_includes lower (js ''experience'') \<or> str_includes lower (js ''humans'') then
           Inr (js ''Contrast human learning and machine learning through mirrored compositions, gently lit to stay ''
                @ tpl (field lighting moodProfile) @ js ''.'')
         else
           (case field colorPalette moodProfile of
              None \<Rightarrow> Inl TypeError
            | Some palette \<Rightarrow>
                Inr (js ''Create calm, abstract imagery around '' @ keyword @ js '', using ''
                     @ tpl (array_at palette 0) @ js '' and '' @ tpl (array_at palette 1)
                     @ js '' accents.'')))"

definition createSupportingAssets :: "casing \<Rightarrow> jsstring \<Rightarrow> jsstring \<Rightarrow> jsstring list" where
  "createSupportingAssets u voice keyword =
     (let lower = toLowerCase u voice
      in (if str_includes lower (js ''data'')
          then [js ''Overlay graph that pulses in sync with narration.''] else [])
       @ (if str_includes lower (js ''predict'')
          then [js ''HUD-style animation showing probability bars filling up.''] else [])
       @ (if str_includes lower (js ''adjust'') \<or> str_includes lower (js ''improves'')
          then [js ''Progress bar that subtly advances with each beat.''] else [])
       @ [js ''B-roll: contextual visuals highlighting '' @ keyword @ js ''.''])"

definition word_count :: "jsstring \<Rightarrow> nat" where
  \<comment> \<open>\<^verbatim>\<open>text.split(/\s+/).filter(Boolean).length\<close>\<close>
  "word_count text = length (filter non_empty (split_runs is_space text))"

definition estimateDurationSeconds :: "jsstring \<Rightarrow> int" where
  "estimateDurationSeconds text =
     (let wordCount = word_count text;
          estimated = js_round (of_nat wordCount / 2.7)
      in clamp estimated 4 9)"

definition averageWordsPerBeat :: "jsstring list \<Rightarrow> rat" where
  "averageWordsPerBeat beats =
     (let totalWords = foldl (\<lambda>sum beat. sum + word_count beat) 0 beats
      in if length beats \<noteq> 0 then of_nat totalWords / of_nat (length beats) else 0)"

definition formatDuration :: "int \<Rightarrow> jsstring" where
  "formatDuration seconds = show_int seconds @ js ''s''"

definition buildSceneLabel :: "casing \<Rightarrow> nat \<Rightarrow> nat \<Rightarrow> jsstring \<Rightarrow> jsstring" where
  \<comment> \<open>\<open>int total - 1\<close>: for no beat at all \<^verbatim>\<open>total - 1\<close> is \<open>-1\<close>, which no index equals\<close>
  "buildSceneLabel u index total_beats voice =
     (if index = 0 then js ''Opening Hook''
      else if int index = int total_beats - 1 then js ''Closing Insight''
      else if str_includes (toLowerCase u voice) (js ''learns'')
              \<or> str_includes (toLowerCase u voice) (js ''learning'') then js ''Learning Beat''
      else if str_includes (toLowerCase u voice) (js ''predict'')
              \<or> str_includes (toLowerCase u voice) (js ''recognize'') then js ''Application Beat''
      else js ''Beat '' @ digits_of (index + 1))"

subsection \<open>The document\<close>

definition title_separator :: jsstring where
  \<comment> \<open>the three characters between the spaces of the title template, U+00E2, U+20AC and
      U+201D: the source file holds the bytes C3 A2, E2 82 AC, E2 80 9D there\<close>
  "title_separator = [0xE2, 0x20AC, 0x201D]"

definition dquote :: jsstring where
  "dquote = [0x22]"

definition scene_of ::
  "casing \<Rightarrow> jsstring list \<Rightarrow> MoodProfile resolved \<Rightarrow> AspectConcept resolved \<Rightarrow> nat \<Rightarrow> nat
     \<Rightarrow> jsstring \<Rightarrow> error + ScenePlan" where
  \<comment> \<open>the callback of \<^verbatim>\<open>storyBeats.map\<close>\<close>
  "scene_of u kws moodProfile aspectProfile total_beats index voice =
     (let primaryKeyword = selectKeywordForScene u voice kws index;
          overlay_text = createOverlay u voice primaryKeyword
      in case createVisualDirection u voice primaryKeyword moodProfile aspectProfile of
           Inl e \<Rightarrow> Inl e
         | Inr visuals_text \<Rightarrow>
             Inr \<lparr>scene_id = index + 1,
                  label = buildSceneLabel u index total_beats voice,
                  voiceover = voice,
                  duration = formatDuration (estimateDurationSeconds voice),
                  visuals = visuals_text,
                  overlay = overlay_text,
                  assets = createSupportingAssets u voice primaryKeyword\<rparr>)"

fun map_scenes ::
  "(nat \<Rightarrow> jsstring \<Rightarrow> error + ScenePlan) \<Rightarrow> nat \<Rightarrow> jsstring list \<Rightarrow> error + ScenePlan list" where
  \<comment> \<open>\<^verbatim>\<open>map\<close> with the index; the first exception ends it\<close>
  "map_scenes f index [] = Inr []"
| "map_scenes f index (voice # rest) =
     (case f index voice of
        Inl e \<Rightarrow> Inl e
      | Inr scene \<Rightarrow>
          (case map_scenes f (index + 1) rest of
             Inl e \<Rightarrow> Inl e
           | Inr others \<Rightarrow> Inr (scene # others)))"

text \<open>
  The fields of the returned object are evaluated in the order of the source. Three of
  them can raise: \<^verbatim>\<open>languageLabel.toLowerCase()\<close> when the label is not a string,
  \<^verbatim>\<open>openingScene.voiceover\<close> when there is no scene, and
  \<^verbatim>\<open>moodProfile.audio.toLowerCase()\<close> when the profile has no \<^verbatim>\<open>audio\<close>. Every
  exception of the function is a \<^verbatim>\<open>TypeError\<close>, and no object is returned once one of
  them is raised, so the fields computed before are built only where all three succeed.
\<close>

definition generateVideoScript :: "casing \<Rightarrow> ScriptForm \<Rightarrow> error + VideoScript" where
  "generateVideoScript u form =
     (let trimmedStory = trim (filter (\<lambda>c. c \<noteq> 0x0D) (story form));
          storyBeats = parseStoryBeats trimmedStory;
          kws = deriveKeywords u (topic form) trimmedStory (keywords_raw form);
          moodProfile = nullish_or (get_prop MOOD_PROFILES (mood form)) DEFAULT_MOOD_PROFILE;
          aspectProfile =
            nullish_or (get_prop ASPECT_GUIDANCE (aspectRatio form)) DEFAULT_ASPECT_GUIDANCE;
          languageLabel = nullish_or (get_prop LANGUAGE_LABELS (language form)) (js ''English'')
      in case map_scenes (scene_of u kws moodProfile aspectProfile (length storyBeats)) 0 storyBeats of
           Inl e \<Rightarrow> Inl e
         | Inr scs \<Rightarrow>
            (case languageLabel of
               Proto \<Rightarrow> Inl TypeError
             | Entry lang \<Rightarrow>
                (case scs of
                   [] \<Rightarrow> Inl TypeError
                 | openingScene # _ \<Rightarrow>
                    (case moodProfile of
                       Proto \<Rightarrow> Inl TypeError
                     | Entry mp \<Rightarrow>
                        Inr \<lparr>title = topic form @ js '' '' @ title_separator @ js '' ''
                                 @ capitalize u (voiceTone mp),
                             subtitle = js ''A '' @ toLowerCase u lang @ js '' explainer crafted for a ''
                                 @ aspectRatio form @ js '' frame.'',
                             hook = hookVerb mp @ js '' viewers with: '' @ dquote
                                 @ voiceover openingScene @ dquote,
                             callToAction = js ''Close by reinforcing '' @ dquote
                                 @ voiceover (last scs) @ dquote
                                 @ js '' and invite viewers to explore how they can apply AI in everyday workflows.'',
                             vs_aspectRatio = aspectRatio form,
                             vs_mood = mood form,
                             vs_language = lang,
                             vs_pacing = pacing mp,
                             audioRecommendation = audio mp,
                             vs_colorPalette = colorPalette mp,
                             vs_keywords = kws,
                             narrationStyle = capitalize u (voiceTone mp) @ js '' delivered in '' @ lang
                                 @ js '', with natural pauses that land every ''
                                 @ show_int (js_round (averageWordsPerBeat storyBeats))
                                 @ js '' words.'',
                             scenes = scs,
                             productionNotes =
                               [field safeZone aspectProfile,
                                Some (js ''Underscore narration with '' @ toLowerCase u (audio mp)
                                      @ js '' mixed at -18 LUFS for clarity.''),
                                Some (js ''Animate key phrases like ''
                                      @ join (js '', '') (map (capitalize u) (take 3 kws))
                                      @ js '' using '' @ motion mp @ js ''.'')]\<rparr>))))"

section \<open>The form as URL query parameters\<close>

text \<open>
  A \<^verbatim>\<open>URLSearchParams\<close> object is its list of name and value pairs. \<^verbatim>\<open>set\<close>
  overwrites the first pair of the name and removes the others, or appends a pair;
  \<^verbatim>\<open>get\<close> gives the value of the first pair of the name, or \<^verbatim>\<open>null\<close>. Both take
  their arguments as \<^verbatim>\<open>USVString\<close>: a surrogate code unit that is not part of a pair
  is replaced by U+FFFD before anything else happens.
\<close>

definition is_high_surrogate :: "jschar \<Rightarrow> bool" where
  "is_high_surrogate c \<longleftrightarrow> 0xD800 \<le> c \<and> c \<le> 0xDBFF"

definition is_low_surrogate :: "jschar \<Rightarrow> bool" where
  "is_low_surrogate c \<longleftrightarrow> 0xDC00 \<le> c \<and> c \<le> 0xDFFF"

fun to_usv :: "jsstring \<Rightarrow> jsstring" where
  \<comment> \<open>the conversion to a \<^verbatim>\<open>USVString\<close>, read back as a string\<close>
  "to_usv (a # b # rest) =
     (if is_high_surrogate a \<and> is_low_surrogate b then a # b # to_usv rest
      else if is_high_surrogate a \<or> is_low_surrogate a then 0xFFFD # to_usv (b # rest)
      else a # to_usv (b # rest))"
| "to_usv [a] = [if is_high_surrogate a \<or> is_low_surrogate a then 0xFFFD else a]"
| "to_usv [] = []"

type_synonym URLSearchParams = "(jsstring \<times> jsstring) list"

fun set_pair :: "URLSearchParams \<Rightarrow> jsstring \<Rightarrow> jsstring \<Rightarrow> URLSearchParams" where
  "set_pair [] name v = [(name, v)]"
| "set_pair ((n, w) # ps) name v =
     (if n = name then (n, v) # filter (\<lambda>(m, _). m \<noteq> name) ps else (n, w) # set_pair ps name v)"

definition usp_set :: "URLSearchParams \<Rightarrow> jsstring \<Rightarrow> jsstring \<Rightarrow> URLSearchParams" where
  "usp_set ps name v = set_pair ps (to_usv name) (to_usv v)"

definition usp_get :: "URLSearchParams \<Rightarrow> jsstring \<Rightarrow> jsstring option" where
  "usp_get ps name = map_of ps (to_usv name)"

definition or_else :: "'a option \<Rightarrow> 'a \<Rightarrow> 'a" where
  \<comment> \<open>\<^verbatim>\<open>v ?? d\<close> for a value that is a string or \<^verbatim>\<open>null\<close>\<close>
  "or_else v d = (case v of Some x \<Rightarrow> x | None \<Rightarrow> d)"

definition DEFAULT_FORM :: ScriptForm where
  "DEFAULT_FORM =
     \<lparr>topic = js ''How AI Works'',
      story = js ''Artificial intelligence is a system that learns patterns from data.'' @ [0x0A]
        @ js ''It studies thousands of examples to understand how things relate.'' @ [0x0A]
        @ js ''Once trained, it can recognize images, predict outcomes, or generate text.'' @ [0x0A]
        @ js ''AI improves through repeated learning, adjusting itself each time.'' @ [0x0A]
        @ js ''In simple terms, AI learns from experience, just like humans do.'',
      aspectRatio = js ''16:9'',
      mood = js ''calm'',
      keywords_raw = js ''AI basics, machine learning, neural networks, technology explained, how AI works'',
      language = js ''en''\<rparr>"

definition loadFormFromParams :: "URLSearchParams option \<Rightarrow> ScriptForm" where
  "loadFormFromParams params =
     (let base = DEFAULT_FORM
      in case params of
           None \<Rightarrow> base
         | Some ps \<Rightarrow>
             \<lparr>topic = or_else (usp_get ps (js ''topic'')) (topic base),
              story = or_else (usp_get ps (js ''story'')) (story base),
              aspectRatio =
                or_else (usp_get ps (js ''aspect_ratio''))
                  (or_else (usp_get ps (js ''aspectRatio'')) (aspectRatio base)),
              mood = or_else (usp_get ps (js ''mood'')) (mood base),
              keywords_raw =
                or_else (usp_get ps (js ''keywords''))
                  (or_else (usp_get ps (js ''related_keywords'')) (keywords_raw base)),
              language = or_else (usp_get ps (js ''language'')) (language base)\<rparr>)"

definition buildSearchParams :: "ScriptForm \<Rightarrow> URLSearchParams" where
  "buildSearchParams form =
     (let p0 = [];
          p1 = usp_set p0 (js ''topic'') (topic form);
          p2 = usp_set p1 (js ''story'') (story form);
          p3 = usp_set p2 (js ''aspect_ratio'') (aspectRatio form);
          p4 = usp_set p3 (js ''mood'') (mood form);
          p5 = usp_set p4 (js ''keywords'') (keywords_raw form);
          p6 = usp_set p5 (js ''language'') (language form)
      in p6)"

section \<open>The statements of the specification\<close>

text \<open>
  The definitions of this section state the claims in words of their own, without the
  functions of the source, and fix the inputs at which both are compared.
\<close>

definition trimmed_story :: "ScriptForm \<Rightarrow> jsstring" where
  \<comment> \<open>the story as the pipeline reads it: carriage returns removed, then trimmed\<close>
  "trimmed_story form = trim (filter (\<lambda>c. c \<noteq> 0x0D) (story form))"

definition em_dash :: jsstring where
  \<comment> \<open>U+2014\<close>
  "em_dash = [0x2014]"

definition spec_title :: "casing \<Rightarrow> jsstring \<Rightarrow> jsstring \<Rightarrow> jsstring" where
  \<comment> \<open>the title of the specification: topic, space, em dash, space, capitalised voice tone\<close>
  "spec_title u topic_text tone = topic_text @ js '' '' @ em_dash @ js '' '' @ capitalize u tone"

definition spec_label :: "nat \<Rightarrow> nat \<Rightarrow> jsstring \<Rightarrow> jsstring" where
  \<comment> \<open>the label rules as the specification words them: the beat itself contains the word\<close>
  "spec_label index total_beats beat =
     (if index = 0 then js ''Opening Hook''
      else if index = total_beats - 1 then js ''Closing Insight''
      else if str_includes beat (js ''learns'') \<or> str_includes beat (js ''learning'')
        then js ''Learning Beat''
      else if str_includes beat (js ''predict'') \<or> str_includes beat (js ''recognize'')
        then js ''Application Beat''
      else js ''Beat '' @ digits_of (index + 1))"

subsection \<open>Durations\<close>

fun count_runs :: "bool \<Rightarrow> jsstring \<Rightarrow> nat" where
  \<comment> \<open>the number of words of a text, a word being a maximal run of characters that are
      not white space; the flag tells whether the scan is inside a word\<close>
  "count_runs inside [] = 0"
| "count_runs inside (c # cs) =
     (if is_space c then count_runs False cs
      else (if inside then 0 else 1) + count_runs True cs)"

definition spec_duration :: "jsstring \<Rightarrow> jsstring" where
  \<comment> \<open>the duration of the specification: the number of words divided by 2.7, rounded to
      the nearest integer, brought into the range from 4 to 9, and written as its one
      digit (48 is the code of the digit 0) followed by the letter \<^verbatim>\<open>s\<close>\<close>
  "spec_duration beat =
     (let n = round (real (count_runs False beat) / 2.7);
          seconds = (if n < 4 then 4 else if 9 < n then 9 else n)
      in [48 + nat seconds, ch (CHR ''s'')])"

subsection \<open>Keywords\<close>

fun pieces :: "(jschar \<Rightarrow> bool) \<Rightarrow> jsstring \<Rightarrow> jsstring list" where
  \<comment> \<open>a text cut at every separator character: between two separators in a row, and
      before a leading and after a trailing one, lies an empty piece\<close>
  "pieces sep [] = [[]]"
| "pieces sep (c # cs) =
     (if sep c then [] # pieces sep cs
      else (case pieces sep cs of p # ps \<Rightarrow> (c # p) # ps | [] \<Rightarrow> [[c]]))"

function dedupe_by :: "('a \<Rightarrow> 'b) \<Rightarrow> 'a list \<Rightarrow> 'a list" where
  \<comment> \<open>of the elements that agree under \<open>key\<close> only the first stays\<close>
  "dedupe_by key [] = []"
| "dedupe_by key (x # xs) = x # dedupe_by key (filter (\<lambda>y. key y \<noteq> key x) xs)"
  by pat_completeness auto
termination
  by (relation "measure (\<lambda>(key, xs). length xs)") (auto simp: less_Suc_eq_le)

definition spec_caller_keywords :: "casing \<Rightarrow> jsstring \<Rightarrow> jsstring list" where
  \<comment> \<open>the caller's keywords: the raw text cut at commas, semicolons and line feeds, each
      piece trimmed and, unless nothing is left of it, turned to lower case\<close>
  "spec_caller_keywords u raw =
     map (toLowerCase u)
       (filter (\<lambda>k. k \<noteq> [])
          (map trim (pieces (\<lambda>c. c = ch (CHR '','') \<or> c = ch (CHR '';'') \<or> c = 0x0A) raw)))"

definition spec_tokens :: "casing \<Rightarrow> jsstring \<Rightarrow> jsstring list" where
  \<comment> \<open>the tokens of a text: the maximal runs of the letters \<^verbatim>\<open>a\<close> to \<^verbatim>\<open>z\<close> and the
      digits in its lower case\<close>
  "spec_tokens u txt =
     filter (\<lambda>w. w \<noteq> []) (pieces (\<lambda>c. \<not> (is_lower c \<or> is_digit c)) (toLowerCase u txt))"

definition rank_by_frequency :: "'a list \<Rightarrow> 'a list" where
  \<comment> \<open>the distinct elements, the more frequent first, those of equal frequency in the order
      of their first occurrence\<close>
  "rank_by_frequency ws = sort_key (\<lambda>w. - int (count_list ws w)) (dedupe_by (\<lambda>w. w) ws)"

definition spec_derived_keywords :: "casing \<Rightarrow> jsstring \<Rightarrow> jsstring list" where
  \<comment> \<open>at most 8 keywords by token frequency: tokens of more than two characters that are
      no stop words\<close>
  "spec_derived_keywords u txt =
     take 8 (rank_by_frequency
       (filter (\<lambda>w. 2 < length w \<and> w \<notin> set STOP_WORDS) (spec_tokens u txt)))"



subsection \<open>Occurrences of \<^verbatim>\<open>ai\<close>, well-formed strings\<close>

definition ai_at :: "jsstring \<Rightarrow> nat \<Rightarrow> bool" where
  \<comment> \<open>an occurrence of \<^verbatim>\<open>ai\<close>, in any case, at position \<open>i\<close>\<close>
  "ai_at s i \<longleftrightarrow>
     i + 1 < length s \<and> lower_char (s ! i) = ch (CHR ''a'') \<and> lower_char (s ! (i + 1)) = ch (CHR ''i'')"

definition word_ai_at :: "jsstring \<Rightarrow> nat \<Rightarrow> bool" where
  \<comment> \<open>an occurrence of \<^verbatim>\<open>ai\<close> that is a whole word: no word character before or after it\<close>
  "word_ai_at s i \<longleftrightarrow>
     ai_at s i \<and> (i = 0 \<or> \<not> is_word_char (s ! (i - 1)))
       \<and> (i + 2 = length s \<or> \<not> is_word_char (s ! (i + 2)))"

definition word_ai_from :: "bool \<Rightarrow> jsstring \<Rightarrow> nat \<Rightarrow> bool" where
  \<comment> \<open>the same for a string that continues a text: the flag tells whether the character
      before the string is a word character\<close>
  "word_ai_from prev s i \<longleftrightarrow>
     ai_at s i \<and> (if i = 0 then \<not> prev else \<not> is_word_char (s ! (i - 1)))
       \<and> (i + 2 = length s \<or> \<not> is_word_char (s ! (i + 2)))"

fun well_formed :: "jsstring \<Rightarrow> bool" where
  \<comment> \<open>no surrogate code unit outside a pair of a high and a low one\<close>
  "well_formed (a # b # rest) =
     (if is_high_surrogate a then is_low_surrogate b \<and> well_formed rest
      else \<not> is_low_surrogate a \<and> well_formed (b # rest))"
| "well_formed [a] = (\<not> is_high_surrogate a \<and> \<not> is_low_surrogate a)"
| "well_formed [] = True"

definition well_formed_form :: "ScriptForm \<Rightarrow> bool" where
  "well_formed_form r \<longleftrightarrow>
     well_formed (topic r) \<and> well_formed (story r) \<and> well_formed (aspectRatio r)
     \<and> well_formed (mood r) \<and> well_formed (keywords_raw r) \<and> well_formed (language r)"

subsection \<open>Sample requests\<close>

definition sample_form :: ScriptForm where
  "sample_form =
     \<lparr>topic = js ''Demo'',
      story = js ''Go now.'' @ [0x0A] @ js ''Deep LEARNING wins.'' @ [0x0A]
              @ js ''You maintain systems.'',
      aspectRatio = js ''16:9'',
      mood = js ''calm'',
      keywords_raw = js ''ai, maintain'',
      language = js ''en''\<rparr>"

definition sample_plan :: VideoScript where
  "sample_plan =
     \<lparr>title = js ''Demo '' @ title_separator @ js '' Warm, reassuring narration'',
      subtitle = js ''A english explainer crafted for a 16:9 frame.'',
      hook = js ''Invite viewers with: '' @ dquote @ js ''Go now.'' @ dquote,
      callToAction = js ''Close by reinforcing '' @ dquote @ js ''You maintain systems.'' @ dquote
        @ js '' and invite viewers to explore how they can apply AI in everyday workflows.'',
      vs_aspectRatio = js ''16:9'',
      vs_mood = js ''calm'',
      vs_language = js ''English'',
      vs_pacing = js ''even, thoughtful cadence'',
      audioRecommendation = js ''Soft ambient piano bed with airy pads'',
      vs_colorPalette = [js ''#E6F0FF'', js ''#C9DBF4'', js ''#F4F6FB''],
      vs_keywords = [js ''AI'', js ''maintain'', js ''demo'', js ''now'', js ''deep'', js ''learning'', js ''wins'',
                     js ''you'', js ''systems''],
      narrationStyle =
        js ''Warm, reassuring narration delivered in English, with natural pauses that land every 3 words.'',
      scenes =
        [\<lparr>scene_id = 1, label = js ''Opening Hook'', voiceover = js ''Go now.'', duration = js ''4s'',
          visuals = js ''Create calm, abstract imagery around now, using #E6F0FF and #C9DBF4 accents.'',
          overlay = js ''Now'',
          assets = [js ''B-roll: contextual visuals highlighting now.'']\<rparr>,
         \<lparr>scene_id = 2, label = js ''Learning Beat'', voiceover = js ''Deep LEARNING wins.'',
          duration = js ''4s'',
          visuals = js ''Illustrate an AI training loop with layered animations that progressively refine, paired with gentle parallax moves and slow dolly pushes.'',
          overlay = js ''Deep LEARNING wins'',
          assets = [js ''B-roll: contextual visuals highlighting deep.'']\<rparr>,
         \<lparr>scene_id = 3, label = js ''Closing Insight'', voiceover = js ''You maintain systems.'',
          duration = js ''4s'',
          visuals = js ''Create calm, abstract imagery around AI, using #E6F0FF and #C9DBF4 accents.'',
          overlay = js ''You mAIntAIn systems'',
          assets = [js ''B-roll: contextual visuals highlighting AI.'']\<rparr>],
      productionNotes =
        [Some (js ''Keep essential graphics inside the central 80% to protect against cropping on social platforms.''),
         Some (js ''Underscore narration with soft ambient piano bed with airy pads mixed at -18 LUFS for clarity.''),
         Some (js ''Animate key phrases like AI, Maintain, Demo using gentle parallax moves and slow dolly pushes.'')]\<rparr>"


definition long_beat :: jsstring where
  \<comment> \<open>a beat of fifteen words, the third and the fourth separated by the ideographic
      space U+3000\<close>
  "long_beat =
     js ''one two three'' @ [0x3000]
     @ js ''four five six seven eight nine ten eleven twelve thirteen fourteen fifteen''"

definition long_form :: ScriptForm where
  \<comment> \<open>a story of two lines, the first of fifteen words, the second of thirty\<close>
  "long_form =
     \<lparr>topic = js ''Count'', story = long_beat @ [0x0A] @ long_beat @ js '' '' @ long_beat,
      aspectRatio = js ''16:9'', mood = js ''calm'', keywords_raw = [], language = js ''en''\<rparr>"

definition surrogate_form :: ScriptForm where
  \<comment> \<open>a request whose topic is one high surrogate without its low one\<close>
  "surrogate_form =
     \<lparr>topic = [0xD800], story = js ''Go now.'', aspectRatio = js ''16:9'', mood = js ''calm'',
      keywords_raw = [], language = js ''en''\<rparr>"

definition emoji_form :: ScriptForm where
  \<comment> \<open>a request with a surrogate pair (U+1F600) in its topic, a story of two lines, and
      three empty fields\<close>
  "emoji_form =
     \<lparr>topic = js ''Hi '' @ [0xD83D, 0xDE00], story = js ''Go now.'' @ [0x0A] @ js ''Stop & think = 100%'',
      aspectRatio = [], mood = js ''calm'', keywords_raw = [], language = []\<rparr>"
section \<open>Properties of the string methods\<close>

lemma starts_with_iff: "starts_with s p \<longleftrightarrow> (\<exists>post. s = p @ post)"
  by (induction s p rule: starts_with.induct) auto

lemma str_includes_iff: "str_includes s t \<longleftrightarrow> (\<exists>pre post. s = pre @ t @ post)"
proof (induction s)
  case Nil
  then show ?case by auto
next
  case (Cons c cs)
  show ?case
  proof
    assume "str_includes (c # cs) t"
    then consider "starts_with (c # cs) t" | "str_includes cs t" by auto
    then show "\<exists>pre post. c # cs = pre @ t @ post"
    proof cases
      case 1
      then obtain post where "c # cs = t @ post" by (auto simp: starts_with_iff)
      then have "c # cs = [] @ t @ post" by simp
      then show ?thesis by blast
    next
      case 2
      then obtain pre post where "cs = pre @ t @ post" using Cons.IH by auto
      then have "c # cs = (c # pre) @ t @ post" by simp
      then show ?thesis by blast
    qed
  next
    assume "\<exists>pre post. c # cs = pre @ t @ post"
    then obtain pre post where e: "c # cs = pre @ t @ post" by auto
    show "str_includes (c # cs) t"
    proof (cases pre)
      case Nil
      then have "starts_with (c # cs) t" using e by (auto simp: starts_with_iff)
      then show ?thesis by simp
    next
      case (Cons p ps)
      then have "cs = ps @ t @ post" using e by simp
      then have "str_includes cs t" using Cons.IH by auto
      then show ?thesis by simp
    qed
  qed
qed

lemma trim_Nil_iff: "trim s = [] \<longleftrightarrow> (\<forall>c \<in> set s. is_space c)"
proof
  assume t: "trim s = []"
  define d where "d = dropWhile is_space s"
  have "dropWhile is_space (rev d) = []"
    using t unfolding trim_def d_def by simp
  then have all: "\<forall>c \<in> set d. is_space c"
    by (simp add: dropWhile_eq_Nil_conv)
  have "d = []"
  proof (rule ccontr)
    assume ne: "d \<noteq> []"
    then have "\<not> is_space (hd d)" unfolding d_def by (rule hd_dropWhile)
    moreover have "hd d \<in> set d" using ne by simp
    ultimately show False using all by blast
  qed
  then show "\<forall>c \<in> set s. is_space c"
    unfolding d_def by (simp add: dropWhile_eq_Nil_conv)
next
  assume "\<forall>c \<in> set s. is_space c"
  then have e: "dropWhile is_space s = []" by (simp add: dropWhile_eq_Nil_conv)
  show "trim s = []" unfolding trim_def e by simp
qed


lemma split_runs_chars: "x \<in> set (split_runs sep s) \<Longrightarrow> set x \<subseteq> set s"
proof (induction sep s rule: split_runs.induct)
  case (1 sep s)
  show ?case
  proof (cases "dropWhile (\<lambda>c. \<not> sep c) s")
    case Nil
    have "split_runs sep s = [s]"
      by (subst split_runs.simps) (simp only: Nil list.case)
    then show ?thesis using "1.prems" by simp
  next
    case (Cons d rest)
    have "split_runs sep s = takeWhile (\<lambda>c. \<not> sep c) s # split_runs sep (dropWhile sep rest)"
      by (subst split_runs.simps) (simp only: Cons list.case)
    then have x: "x = takeWhile (\<lambda>c. \<not> sep c) s \<or> x \<in> set (split_runs sep (dropWhile sep rest))"
      using "1.prems" by simp
    have rest: "set rest \<subseteq> set s"
      using set_dropWhileD [of _ "\<lambda>c. \<not> sep c" s] Cons by auto
    from x show ?thesis
    proof
      assume "x = takeWhile (\<lambda>c. \<not> sep c) s"
      then show ?thesis using set_takeWhileD [of _ "\<lambda>c. \<not> sep c" s] by auto
    next
      assume "x \<in> set (split_runs sep (dropWhile sep rest))"
      then have "set x \<subseteq> set (dropWhile sep rest)" using "1.IH" Cons by simp
      then show ?thesis using rest set_dropWhileD [of _ sep rest] by blast
    qed
  qed
qed

section \<open>Segmentation never gives an empty beat list\<close>

lemma split_sentences_head: "\<exists>p rest. split_sentences acc s = p # rest \<and> set acc \<subseteq> set p"
proof (induction acc s rule: split_sentences.induct)
  case (1 acc)
  then show ?case by simp
next
  case (2 acc c cs)
  show ?case
  proof (cases "is_space c \<and> (case acc of [] \<Rightarrow> False | p # _ \<Rightarrow> sentence_end p)
         \<and> (case dropWhile is_space cs of [] \<Rightarrow> False | d # _ \<Rightarrow> is_upper d)")
    case True
    then show ?thesis by simp
  next
    case False
    then have "split_sentences acc (c # cs) = split_sentences (c # acc) cs"
      by (subst split_sentences.simps) (simp only: if_False)
    moreover obtain p rest where "split_sentences (c # acc) cs = p # rest" "set (c # acc) \<subseteq> set p"
      using "2.IH"(2) [OF False] by blast
    ultimately show ?thesis by auto
  qed
qed

lemma sentences_non_empty:
  assumes "para \<noteq> []" and "\<not> is_space (hd para)"
  shows "filter non_empty (map trim (split_sentences [] para)) \<noteq> []"
proof -
  obtain c cs where pc: "para = c # cs" using assms(1) by (cases para) auto
  then have nsp: "\<not> is_space c" using assms(2) by simp
  then have "split_sentences [] para = split_sentences [c] cs"
    using pc by simp
  moreover obtain p rest where pr: "split_sentences [c] cs = p # rest" "set [c] \<subseteq> set p"
    using split_sentences_head [of "[c]" cs] by blast
  ultimately have sp: "split_sentences [] para = p # rest" by simp
  have "c \<in> set p" using pr(2) by simp
  then have "trim p \<noteq> []" using nsp trim_Nil_iff [of p] by blast
  then show ?thesis using sp by (simp add: non_empty_def)
qed

lemma trim_hd: "trim s \<noteq> [] \<Longrightarrow> \<not> is_space (hd (trim s))"
proof -
  assume ne: "trim s \<noteq> []"
  define d where "d = dropWhile is_space s"
  have dne: "d \<noteq> []"
  proof
    assume "d = []"
    then have e: "dropWhile is_space s = []" by (simp only: d_def)
    have "trim s = []" unfolding trim_def e by simp
    then show False using ne by simp
  qed
  then have hd_d: "\<not> is_space (hd d)" unfolding d_def by (rule hd_dropWhile)
  define e where "e = dropWhile is_space (rev d)"
  have ene: "e \<noteq> []" using ne by (simp add: trim_def d_def e_def)
  have "rev d = takeWhile is_space (rev d) @ e" by (simp add: e_def)
  then have "last (rev d) = last e" using ene by (metis last_appendR)
  then have "last e = hd d" using dne by (simp add: last_rev)
  then have "hd (rev e) = hd d" using ene by (simp add: hd_rev)
  moreover have "trim s = rev e" by (simp add: trim_def d_def e_def)
  ultimately show ?thesis using hd_d by simp
qed

lemma story_lines_props:
  "l \<in> set (story_lines s) \<Longrightarrow> l \<noteq> [] \<and> \<not> is_space (hd l)"
  using trim_hd by (auto simp: story_lines_def non_empty_def)

lemma parseStoryBeats_non_empty: "parseStoryBeats s \<noteq> []"
proof (cases "story_lines s")
  case Nil
  then show ?thesis by (simp add: parseStoryBeats_def Let_def default_beats_def)
next
  case (Cons l ls)
  then have "l \<in> set (story_lines s)" by simp
  then have "l \<noteq> []" "\<not> is_space (hd l)" using story_lines_props by auto
  then have "filter non_empty (map trim (split_sentences [] l)) \<noteq> []"
    by (rule sentences_non_empty)
  then show ?thesis using Cons by (simp add: parseStoryBeats_def Let_def)
qed


section \<open>The scenes and the returned document\<close>

lemma map_scenes_Inr:
  "map_scenes f k xs = Inr ss \<Longrightarrow>
     length ss = length xs \<and> (\<forall>i < length xs. f (k + i) (xs ! i) = Inr (ss ! i))"
proof (induction xs arbitrary: k ss)
  case Nil
  then show ?case by simp
next
  case (Cons v rest)
  from Cons.prems obtain sc others where
    sc: "f k v = Inr sc" and others: "map_scenes f (k + 1) rest = Inr others"
    and ss: "ss = sc # others"
    by (auto split: sum.splits)
  from Cons.IH [OF others] have len: "length others = length rest"
    and nth: "\<forall>i < length rest. f (k + 1 + i) (rest ! i) = Inr (others ! i)"
    by auto
  show ?case
  proof (intro conjI allI impI)
    show "length ss = length (v # rest)" using ss len by simp
  next
    fix i assume "i < length (v # rest)"
    then show "f (k + i) ((v # rest) ! i) = Inr (ss ! i)"
      using sc nth ss by (cases i) auto
  qed
qed

lemma map_scenes_total:
  "(\<And>i v. \<exists>sc. f i v = Inr sc) \<Longrightarrow> \<exists>ss. map_scenes f k xs = Inr ss"
proof (induction xs arbitrary: k)
  case Nil
  then show ?case by simp
next
  case (Cons v rest)
  obtain sc where "f k v = Inr sc" using Cons.prems by blast
  moreover obtain others where "map_scenes f (k + 1) rest = Inr others"
    using Cons.IH [OF Cons.prems] by blast
  ultimately show ?case by simp
qed

lemma scene_of_Inr:
  assumes "scene_of u kws mp ap n i v = Inr sc"
  shows "voiceover sc = v" and "label sc = buildSceneLabel u i n v"
    and "duration sc = formatDuration (estimateDurationSeconds v)"
    and "overlay sc = createOverlay u v (selectKeywordForScene u v kws i)"
    and "scene_id sc = i + 1"
  using assms by (auto simp: scene_of_def Let_def split: sum.splits)

lemma createVisualDirection_Entry:
  "\<exists>vis. createVisualDirection u v k (Entry mp) ap = Inr vis"
  by (simp add: createVisualDirection_def Let_def field_def)

lemma scene_of_Entry: "\<exists>sc. scene_of u kws (Entry mp) ap n i v = Inr sc"
proof -
  obtain vis where
    "createVisualDirection u v (selectKeywordForScene u v kws i) (Entry mp) ap = Inr vis"
    using createVisualDirection_Entry by blast
  then show ?thesis by (simp add: scene_of_def Let_def)
qed

lemma error_is_TypeError: "(e :: error) = TypeError"
  by (cases e) simp

lemma generate_Inr:
  assumes "generateVideoScript u form = Inr plan"
  shows "\<exists>mp lang.
     nullish_or (get_prop MOOD_PROFILES (mood form)) DEFAULT_MOOD_PROFILE = Entry mp
   \<and> nullish_or (get_prop LANGUAGE_LABELS (language form)) (js ''English'') = Entry lang
   \<and> map_scenes (scene_of u (deriveKeywords u (topic form) (trimmed_story form) (keywords_raw form))
         (Entry mp)
         (nullish_or (get_prop ASPECT_GUIDANCE (aspectRatio form)) DEFAULT_ASPECT_GUIDANCE)
         (length (parseStoryBeats (trimmed_story form)))) 0 (parseStoryBeats (trimmed_story form))
       = Inr (scenes plan)
   \<and> vs_keywords plan = deriveKeywords u (topic form) (trimmed_story form) (keywords_raw form)
   \<and> title plan = topic form @ js '' '' @ title_separator @ js '' '' @ capitalize u (voiceTone mp)
   \<and> vs_language plan = lang \<and> vs_pacing plan = pacing mp
   \<and> audioRecommendation plan = audio mp \<and> vs_colorPalette plan = colorPalette mp"
  using assms unfolding generateVideoScript_def trimmed_story_def Let_def
  by (auto split: sum.splits resolved.splits list.splits)

lemma generate_scenes:
  assumes "generateVideoScript u form = Inr plan"
  shows "length (scenes plan) = length (parseStoryBeats (trimmed_story form))"
    and "i < length (scenes plan) \<Longrightarrow>
           voiceover (scenes plan ! i) = parseStoryBeats (trimmed_story form) ! i
         \<and> label (scenes plan ! i)
             = buildSceneLabel u i (length (scenes plan)) (voiceover (scenes plan ! i))
         \<and> duration (scenes plan ! i)
             = formatDuration (estimateDurationSeconds (voiceover (scenes plan ! i)))
         \<and> overlay (scenes plan ! i)
             = createOverlay u (voiceover (scenes plan ! i))
                 (selectKeywordForScene u (voiceover (scenes plan ! i)) (vs_keywords plan) i)
         \<and> scene_id (scenes plan ! i) = i + 1"
proof -
  let ?beats = "parseStoryBeats (trimmed_story form)"
  from generate_Inr [OF assms] obtain mp ap where
    ms: "map_scenes (scene_of u (vs_keywords plan) (Entry mp) ap (length ?beats)) 0 ?beats
           = Inr (scenes plan)"
    by auto
  from map_scenes_Inr [OF ms] have len: "length (scenes plan) = length ?beats"
    and nth: "\<forall>i < length ?beats.
       scene_of u (vs_keywords plan) (Entry mp) ap (length ?beats) (0 + i) (?beats ! i)
         = Inr (scenes plan ! i)"
    by auto
  show "length (scenes plan) = length ?beats" by (rule len)
  assume i: "i < length (scenes plan)"
  then have "scene_of u (vs_keywords plan) (Entry mp) ap (length ?beats) i (?beats ! i)
         = Inr (scenes plan ! i)"
    using nth len by simp
  from scene_of_Inr [OF this] show
    "voiceover (scenes plan ! i) = ?beats ! i
         \<and> label (scenes plan ! i)
             = buildSceneLabel u i (length (scenes plan)) (voiceover (scenes plan ! i))
         \<and> duration (scenes plan ! i)
             = formatDuration (estimateDurationSeconds (voiceover (scenes plan ! i)))
         \<and> overlay (scenes plan ! i)
             = createOverlay u (voiceover (scenes plan ! i))
                 (selectKeywordForScene u (voiceover (scenes plan ! i)) (vs_keywords plan) i)
         \<and> scene_id (scenes plan ! i) = i + 1"
    using len by simp
qed

lemma generate_voiceovers:
  assumes "generateVideoScript u form = Inr plan"
  shows "map voiceover (scenes plan) = parseStoryBeats (trimmed_story form)"
  using generate_scenes [OF assms] by (auto intro: nth_equalityI)

subsection \<open>Which requests get a document\<close>

lemma table_keys_not_inherited:
  "distinct (map fst MOOD_PROFILES @ object_prototype_keys)"
  "distinct (map fst LANGUAGE_LABELS @ object_prototype_keys)"
  "distinct (map fst ASPECT_GUIDANCE @ object_prototype_keys)"
  by (simp_all add: MOOD_PROFILES_def LANGUAGE_LABELS_def ASPECT_GUIDANCE_def
      object_prototype_keys_def js_def ch_def)

lemma get_prop_Inherited:
  assumes "distinct (map fst table @ object_prototype_keys)"
    and "key \<in> set object_prototype_keys"
  shows "get_prop table key = Inherited"
proof -
  have "set (map fst table) \<inter> set object_prototype_keys = {}"
    using assms(1) by (simp only: distinct_append)
  then have "key \<notin> fst ` set table" using assms(2) by auto
  then have "map_of table key = None" by (simp add: map_of_eq_None_iff)
  then show ?thesis using assms(2) by (simp add: get_prop_def)
qed

lemmas get_prop_own_keys =
  get_prop_Inherited [OF table_keys_not_inherited(1)]
  get_prop_Inherited [OF table_keys_not_inherited(2)]
  get_prop_Inherited [OF table_keys_not_inherited(3)]

lemma nullish_get_prop:
  "nullish_or (get_prop table key) d =
     (case map_of table key of Some v \<Rightarrow> Entry v
      | None \<Rightarrow> if key \<in> set object_prototype_keys then Proto else Entry d)"
  by (simp add: nullish_or_def get_prop_def split: option.splits)

lemma generate_raises:
  assumes "mood form \<in> set object_prototype_keys \<or> language form \<in> set object_prototype_keys"
  shows "generateVideoScript u form = Inl TypeError"
proof -
  have "nullish_or (get_prop MOOD_PROFILES (mood form)) DEFAULT_MOOD_PROFILE = Proto
      \<or> nullish_or (get_prop LANGUAGE_LABELS (language form)) (js ''English'') = Proto"
    using assms get_prop_own_keys by (auto simp: nullish_or_def)
  then have "\<not> (\<exists>plan. generateVideoScript u form = Inr plan)"
    using generate_Inr [of u form] by fastforce
  then show ?thesis
    using error_is_TypeError by (cases "generateVideoScript u form") auto
qed

lemma generate_returns:
  assumes "mood form \<notin> set object_prototype_keys"
    and "language form \<notin> set object_prototype_keys"
  shows "\<exists>plan. generateVideoScript u form = Inr plan"
proof -
  let ?beats = "parseStoryBeats (trimmed_story form)"
  let ?kws = "deriveKeywords u (topic form) (trimmed_story form) (keywords_raw form)"
  let ?ap = "nullish_or (get_prop ASPECT_GUIDANCE (aspectRatio form)) DEFAULT_ASPECT_GUIDANCE"
  obtain mp where mp:
    "nullish_or (get_prop MOOD_PROFILES (mood form)) DEFAULT_MOOD_PROFILE = Entry mp"
    using assms(1) by (cases "map_of MOOD_PROFILES (mood form)") (auto simp: nullish_get_prop)
  obtain lang where lang:
    "nullish_or (get_prop LANGUAGE_LABELS (language form)) (js ''English'') = Entry lang"
    using assms(2) by (cases "map_of LANGUAGE_LABELS (language form)") (auto simp: nullish_get_prop)
  obtain ss where ss: "map_scenes (scene_of u ?kws (Entry mp) ?ap (length ?beats)) 0 ?beats = Inr ss"
    using map_scenes_total [of "scene_of u ?kws (Entry mp) ?ap (length ?beats)" 0 ?beats]
      scene_of_Entry by blast
  have "length ss = length ?beats" using map_scenes_Inr [OF ss] by simp
  then have "ss \<noteq> []" using parseStoryBeats_non_empty [of "trimmed_story form"] by auto
  then obtain s0 rest where "ss = s0 # rest" by (cases ss) auto
  then show ?thesis
    using mp lang ss unfolding generateVideoScript_def Let_def trimmed_story_def by simp
qed

lemma resolve_unknown_key:
  "map_of table key = None \<Longrightarrow> key \<notin> set object_prototype_keys \<Longrightarrow>
     nullish_or (get_prop table key) d = Entry d"
  by (simp add: nullish_get_prop)

lemma title_of_plan:
  assumes "generateVideoScript u form = Inr plan"
  shows "\<exists>mp. nullish_or (get_prop MOOD_PROFILES (mood form)) DEFAULT_MOOD_PROFILE = Entry mp
    \<and> title plan = topic form @ js '' '' @ title_separator @ js '' '' @ capitalize u (voiceTone mp)"
  using generate_Inr [OF assms] by auto

lemma title_never_spec:
  assumes "generateVideoScript u form = Inr plan"
  shows "title plan \<noteq> spec_title u (topic form) tone"
proof -
  from title_of_plan [OF assms] obtain mp :: MoodProfile where
    "title plan = topic form @ js '' '' @ title_separator @ js '' '' @ capitalize u (voiceTone mp)"
    by auto
  then show ?thesis
    by (simp add: spec_title_def title_separator_def em_dash_def)
qed

section \<open>Word counts\<close>

lemma count_runs_inside: "count_runs True s = count_runs False (dropWhile (\<lambda>c. \<not> is_space c) s)"
  by (induction s) auto

lemma count_runs_skip: "count_runs False s = count_runs False (dropWhile is_space s)"
  by (induction s) auto

lemma count_runs_word:
  "count_runs False s
     = (if takeWhile (\<lambda>c. \<not> is_space c) s \<noteq> [] then 1 else 0)
       + count_runs False (dropWhile (\<lambda>c. \<not> is_space c) s)"
  by (cases s) (auto simp: count_runs_inside)

lemma split_runs_count:
  "length (filter non_empty (split_runs is_space s)) = count_runs False s"
proof (induction s rule: length_induct)
  case (1 s)
  show ?case
  proof (cases "dropWhile (\<lambda>c. \<not> is_space c) s")
    case Nil
    have sp: "split_runs is_space s = [s]"
      by (subst split_runs.simps) (simp only: Nil list.case)
    have tw: "takeWhile (\<lambda>c. \<not> is_space c) s = s"
      using takeWhile_dropWhile_id [of "\<lambda>c. \<not> is_space c" s] by (simp only: Nil append_Nil2)
    have "count_runs False s = (if s \<noteq> [] then 1 else 0) + count_runs False []"
      using count_runs_word [of s] by (simp only: tw Nil)
    then show ?thesis
      by (simp add: sp non_empty_def [abs_def])
  next
    case (Cons d rest)
    have sp: "split_runs is_space s
        = takeWhile (\<lambda>c. \<not> is_space c) s # split_runs is_space (dropWhile is_space rest)"
      by (subst split_runs.simps) (simp only: Cons list.case)
    have d: "is_space d"
      using hd_dropWhile [of "\<lambda>c. \<not> is_space c" s] by (simp add: Cons)
    have "length (d # rest) \<le> length s"
      using length_dropWhile_le [of "\<lambda>c. \<not> is_space c" s] by (simp only: Cons)
    moreover have "length (dropWhile is_space rest) \<le> length rest"
      by (rule length_dropWhile_le)
    ultimately have "length (dropWhile is_space rest) < length s" by simp
    then have ih: "length (filter non_empty (split_runs is_space (dropWhile is_space rest)))
        = count_runs False (dropWhile is_space rest)"
      using "1.IH" by blast
    have "count_runs False (d # rest) = count_runs False (dropWhile is_space rest)"
      using d count_runs_skip [of rest] by simp
    then show ?thesis
      using count_runs_word [of s] ih by (simp add: sp Cons non_empty_def [abs_def])
  qed
qed

lemma word_count_runs: "word_count s = count_runs False s"
  unfolding word_count_def by (rule split_runs_count)

section \<open>Rounding\<close>

text \<open>
  The two calls of \<^verbatim>\<open>Math.round\<close>, on a word count divided by 2.7 and on the mean
  of the word counts, as integer divisions.
\<close>

lemma duration_fraction:
  "(of_nat n / 2.7 + 1 / 2 :: 'a :: {floor_ceiling}) = of_int (20 * int n + 27) / of_int 54"
  by (simp add: field_simps)

lemma js_round_duration: "js_round (of_nat n / 2.7) = (20 * int n + 27) div 54"
  unfolding js_round_def duration_fraction by (rule floor_divide_of_int_eq)

lemma estimateDurationSeconds_div:
  "estimateDurationSeconds v = clamp ((20 * int (word_count v) + 27) div 54) 4 9"
  by (simp only: estimateDurationSeconds_def Let_def js_round_duration)

lemma js_round_quotient:
  assumes "n \<noteq> 0"
  shows "js_round (of_nat t / of_nat n) = (2 * int t + int n) div (2 * int n)"
proof -
  have "(of_nat t / of_nat n + 1 / 2 :: rat) = of_int (2 * int t + int n) / of_int (2 * int n)"
    using assms by (simp add: field_simps)
  then show ?thesis
    unfolding js_round_def by (simp only: floor_divide_of_int_eq)
qed

lemma js_round_average:
  "js_round (averageWordsPerBeat beats)
     = (if beats = [] then 0
        else (2 * int (foldl (\<lambda>sum beat. sum + word_count beat) 0 beats) + int (length beats))
               div (2 * int (length beats)))"
proof (cases "beats = []")
  case True
  have "\<lfloor>1 / 2 :: rat\<rfloor> = 0" by (rule floor_unique) simp_all
  then show ?thesis using True by (simp add: averageWordsPerBeat_def js_round_def)
next
  case False
  then have n: "length beats \<noteq> 0" by simp
  have "averageWordsPerBeat beats
      = of_nat (foldl (\<lambda>sum beat. sum + word_count beat) 0 beats) / of_nat (length beats)"
    using n by (simp add: averageWordsPerBeat_def)
  then show ?thesis using False js_round_quotient [OF n] by simp
qed

lemma round_duration: "round (real n / 2.7) = (20 * int n + 27) div 54"
  unfolding round_def duration_fraction by (rule floor_divide_of_int_eq)

lemma duration_no_tie: "\<bar>(of_nat n / 2.7 :: rat) - (of_int k + 1 / 2)\<bar> \<ge> 1 / 54"
proof -
  define m where "m = 20 * int n - 54 * k - 27"
  have "m \<noteq> 0" unfolding m_def by presburger
  then have "\<bar>m\<bar> \<ge> 1" by simp
  then have "(of_int \<bar>m\<bar> :: rat) \<ge> 1" by (simp only: of_int_1_le_iff)
  moreover have "(of_nat n / 2.7 :: rat) - (of_int k + 1 / 2) = of_int m / 54"
    unfolding m_def by (simp add: field_simps)
  ultimately show ?thesis by (simp add: field_simps)
qed

section \<open>The sample request\<close>

text \<open>
  The equations by which the functions of the pipeline are computed on a given request.
\<close>

lemmas ev = js_def ch_def is_space_def is_upper_def is_lower_def is_digit_def is_word_char_def
  lower_char_def upper_char_def ascii_casing_def trim_def split_runs.simps
  capitalize_def digits_of.simps clamp_def show_int_def
  get_prop_def nullish_or_def field_def tpl_def array_at_def object_prototype_keys_def
  LANGUAGE_LABELS_def calm_def energetic_def inspirational_def MOOD_PROFILES_def
  DEFAULT_MOOD_PROFILE_def landscape_def vertical_def square_def ASPECT_GUIDANCE_def
  DEFAULT_ASPECT_GUIDANCE_def STOP_WORDS_def sentence_end_def default_beats_def non_empty_def
  story_lines_def parseStoryBeats_def tokenize_def extractKeywordsFromStory_def set_add_def
  array_from_set_def providedKeywords_def deriveKeywords_def selectKeywordForScene_def
  condense_def createOverlay_def createVisualDirection_def createSupportingAssets_def
  word_count_def estimateDurationSeconds_div js_round_average formatDuration_def
  buildSceneLabel_def title_separator_def dquote_def scene_of_def generateVideoScript_def
  Let_def

lemma sample_eval: "generateVideoScript ascii_casing sample_form = Inr sample_plan"
  by (simp add: ev sample_form_def sample_plan_def)
section \<open>Requests without a document, the default narrative, the title\<close>

text \<open>
  C1. The specification says that \<open>generateVideoScript\<close> returns a plan for every
  request, whatever six strings it holds, unknown categorical values falling back to the
  default profiles. The code raises a \<^verbatim>\<open>TypeError\<close> for the request below, whose mood is
  the name of a member of \<^verbatim>\<open>Object.prototype\<close>: the lookup finds the inherited member,
  \<^verbatim>\<open>??\<close> keeps it, and \<^verbatim>\<open>moodProfile.audio.toLowerCase()\<close> fails. This does not
  depend on the case mappings \<open>u\<close>.
\<close>

theorem generate_raises_on_inherited_mood:
  "generateVideoScript u
     \<lparr>topic = js ''How AI Works'', story = js ''AI learns from data. It predicts outcomes.'',
      aspectRatio = js ''9:16'', mood = js ''constructor'', keywords_raw = [], language = js ''en''\<rparr>
   = Inl TypeError"
  by (rule generate_raises) (simp add: object_prototype_keys_def)



text \<open>
  C5. The specification says that profile resolution never raises and that a key outside
  a table resolves to the documented default: the calm profile, the 16:9 profile, the
  label English. For a key that names a member of \<^verbatim>\<open>Object.prototype\<close> the code
  resolves to that member instead, for each of the three tables, and a request with such
  a language raises a \<^verbatim>\<open>TypeError\<close>.
\<close>

theorem resolution_keeps_inherited_member:
  "nullish_or (get_prop MOOD_PROFILES (js ''toString'')) DEFAULT_MOOD_PROFILE = Proto
   \<and> nullish_or (get_prop ASPECT_GUIDANCE (js ''toString'')) DEFAULT_ASPECT_GUIDANCE = Proto
   \<and> nullish_or (get_prop LANGUAGE_LABELS (js ''toString'')) (js ''English'') = Proto
   \<and> nullish_or (get_prop MOOD_PROFILES (js ''calm'')) DEFAULT_MOOD_PROFILE = Entry calm
   \<and> generateVideoScript u (sample_form\<lparr>language := js ''toString''\<rparr>) = Inl TypeError"
proof -
  have k: "js ''toString'' \<in> set object_prototype_keys"
    by (simp add: object_prototype_keys_def)
  have "generateVideoScript u (sample_form\<lparr>language := js ''toString''\<rparr>) = Inl TypeError"
    by (rule generate_raises) (simp add: k)
  moreover have "nullish_or (get_prop MOOD_PROFILES (js ''calm'')) DEFAULT_MOOD_PROFILE = Entry calm"
    by (simp add: nullish_get_prop MOOD_PROFILES_def)
  ultimately show ?thesis
    using get_prop_own_keys [OF k] by (simp add: nullish_or_def)
qed

text \<open>
  C8. The specification says that the title is the topic, a space, an em dash, a space
  and the capitalised voice tone. In the code the three characters U+00E2, U+20AC,
  U+201D stand where the em dash should: the title of the sample request is the one
  below, and it is not the title of the specification.
\<close>

theorem title_has_no_em_dash:
  "generateVideoScript ascii_casing sample_form = Inr sample_plan
   \<and> title sample_plan = js ''Demo '' @ title_separator @ js '' Warm, reassuring narration''
   \<and> title sample_plan \<noteq> spec_title ascii_casing (topic sample_form) (voiceTone calm)"
  using sample_eval title_never_spec [OF sample_eval, of "voiceTone calm"]
  by (simp add: sample_plan_def)

section \<open>Durations\<close>

lemma formatDuration_digit:
  assumes "4 \<le> k" and "k \<le> 9"
  shows "formatDuration k = [48 + nat k, ch (CHR ''s'')]"
proof -
  have "nat k < 10" using assms by simp
  then have "digits_of (nat k) = [48 + nat k]" by (simp add: digits_of.simps)
  then show ?thesis using assms by (simp add: formatDuration_def show_int_def js_def)
qed

lemma clamp_4_9:
  "clamp n 4 9 = (if n < 4 then 4 else if 9 < n then 9 else n)"
  by (simp add: clamp_def)

lemma spec_duration_div:
  "spec_duration beat =
     (let n = (20 * int (count_runs False beat) + 27) div 54;
          seconds = (if n < 4 then 4 else if 9 < n then 9 else n)
      in [48 + nat seconds, ch (CHR ''s'')])"
  by (simp only: spec_duration_def round_duration)

lemma formatDuration_spec:
  "formatDuration (estimateDurationSeconds v) = spec_duration v"
proof -
  let ?n = "(20 * int (count_runs False v) + 27) div 54"
  let ?k = "if ?n < 4 then 4 else if 9 < ?n then 9 else ?n"
  have e: "estimateDurationSeconds v = ?k"
    by (simp only: estimateDurationSeconds_div word_count_runs clamp_4_9)
  have "4 \<le> ?k" and "?k \<le> 9" by simp_all
  then have "formatDuration ?k = [48 + nat ?k, ch (CHR ''s'')]"
    by (rule formatDuration_digit)
  then show ?thesis
    by (simp only: e spec_duration_div Let_def)
qed

lemma spec_duration_range:
  "spec_duration v \<in> set [js ''4s'', js ''5s'', js ''6s'', js ''7s'', js ''8s'', js ''9s'']"
proof -
  define n where "n = (20 * int (count_runs False v) + 27) div 54"
  define k where "k = (if n < 4 then 4 else if 9 < n then 9 else n)"
  have "k = 4 \<or> k = 5 \<or> k = 6 \<or> k = 7 \<or> k = 8 \<or> k = 9"
    unfolding k_def by (simp split: if_splits) arith
  moreover have "spec_duration v = [48 + nat k, ch (CHR ''s'')]"
    by (simp only: spec_duration_div Let_def n_def k_def)
  ultimately show ?thesis by (auto simp: js_def ch_def)
qed

lemma long_story_beats:
  "parseStoryBeats (trimmed_story long_form) = [long_beat, long_beat @ js '' '' @ long_beat]"
  by (simp add: ev long_form_def long_beat_def trimmed_story_def)

lemma long_beat_durations:
  "map spec_duration [long_beat, long_beat @ js '' '' @ long_beat] = [js ''6s'', js ''9s'']"
  by (simp add: spec_duration_div long_beat_def js_def ch_def is_space_def)

text \<open>
  C2. For every request and every scene of its plan, the duration is the number of words
  of the scene's voice-over divided by 2.7, rounded to the nearest integer, brought into
  the range from 4 to 9 (4 for a smaller integer, 9 for a larger one) and followed by the
  letter s; so it is one of the six strings from 4s to 9s. A word is a maximal run of
  characters that are not white space.
\<close>

theorem scene_duration:
  assumes "generateVideoScript u form = Inr plan" and "sc \<in> set (scenes plan)"
  shows "duration sc = spec_duration (voiceover sc)
       \<and> duration sc \<in> set [js ''4s'', js ''5s'', js ''6s'', js ''7s'', js ''8s'', js ''9s'']"
proof -
  obtain i where i: "i < length (scenes plan)" and sc: "sc = scenes plan ! i"
    using assms(2) by (auto simp: in_set_conv_nth)
  have "duration sc = formatDuration (estimateDurationSeconds (voiceover sc))"
    using generate_scenes(2) [OF assms(1) i] sc by simp
  then have d: "duration sc = spec_duration (voiceover sc)"
    by (simp only: formatDuration_spec)
  then show ?thesis using spec_duration_range [of "voiceover sc"] by simp
qed

text \<open>
  The request \<open>long_form\<close> has a beat of fifteen words and one of thirty: the durations
  are 6s, the rounded quotient, and 9s, the upper end of the range. (The three beats of
  the sample request, of two or three words each, have the duration 4s.)
\<close>

theorem scene_duration_witness:
  "generateVideoScript ascii_casing long_form
     = Inr (projr (generateVideoScript ascii_casing long_form))
   \<and> map voiceover (scenes (projr (generateVideoScript ascii_casing long_form)))
       = [long_beat, long_beat @ js '' '' @ long_beat]
   \<and> map duration (scenes (projr (generateVideoScript ascii_casing long_form)))
       = [js ''6s'', js ''9s'']"
proof -
  let ?plan = "projr (generateVideoScript ascii_casing long_form)"
  have "\<exists>plan. generateVideoScript ascii_casing long_form = Inr plan"
    by (rule generate_returns) (simp_all add: long_form_def object_prototype_keys_def js_def ch_def)
  then have h: "generateVideoScript ascii_casing long_form = Inr ?plan" by auto
  have v: "map voiceover (scenes ?plan) = [long_beat, long_beat @ js '' '' @ long_beat]"
    using generate_voiceovers [OF h] by (simp only: long_story_beats)
  have "map duration (scenes ?plan) = map (\<lambda>sc. spec_duration (voiceover sc)) (scenes ?plan)"
    using scene_duration [OF h] by (intro map_cong) auto
  also have "\<dots> = map spec_duration (map voiceover (scenes ?plan))" by (simp add: comp_def)
  also have "\<dots> = [js ''6s'', js ''9s'']" by (simp only: v long_beat_durations)
  finally show ?thesis using h v by simp
qed

section \<open>Labels\<close>

lemma buildSceneLabel_spec:
  "i < n \<Longrightarrow> buildSceneLabel u i n v = spec_label i n (toLowerCase u v)"
  by (auto simp: buildSceneLabel_def spec_label_def)

text \<open>
  C3, as stated, takes the words learns, learning, predict and recognize to be looked for
  in the beat itself. The code looks for them in the beat turned to lower case: in the
  sample request the second of three beats is \<^verbatim>\<open>Deep LEARNING wins.\<close>, its label is
  Learning Beat, and the rules applied to the beat itself give Beat 2.
\<close>

theorem label_case_counterexample:
  "generateVideoScript ascii_casing sample_form = Inr sample_plan
   \<and> length (scenes sample_plan) = 3
   \<and> voiceover (scenes sample_plan ! 1) = js ''Deep LEARNING wins.''
   \<and> label (scenes sample_plan ! 1) = js ''Learning Beat''
   \<and> spec_label 1 3 (js ''Deep LEARNING wins.'') = js ''Beat 2''"
proof -
  have "spec_label 1 3 (js ''Deep LEARNING wins.'') = js ''Beat 2''"
    by (simp add: spec_label_def js_def ch_def digits_of.simps)
  then show ?thesis using sample_eval by (simp add: sample_plan_def)
qed

text \<open>
  C3, amended. For every request with \<open>N\<close> beats, the label of the scene at index \<open>i\<close>
  is given by the first rule that applies: Opening Hook for \<open>i = 0\<close>; Closing Insight for
  \<open>i = N - 1\<close>; Learning Beat when the beat in lower case contains learns or learning;
  Application Beat when the beat in lower case contains predict or recognize; otherwise
  Beat and the number \<open>i + 1\<close>. A story of one beat has the label Opening Hook.
\<close>

theorem label_rule:
  assumes "generateVideoScript u form = Inr plan" and "i < length (scenes plan)"
  shows "label (scenes plan ! i)
           = spec_label i (length (scenes plan)) (toLowerCase u (voiceover (scenes plan ! i)))
       \<and> (length (scenes plan) = 1 \<longrightarrow> label (scenes plan ! i) = js ''Opening Hook'')"
proof -
  have "label (scenes plan ! i)
          = buildSceneLabel u i (length (scenes plan)) (voiceover (scenes plan ! i))"
    using generate_scenes(2) [OF assms] by simp
  then have l: "label (scenes plan ! i)
          = spec_label i (length (scenes plan)) (toLowerCase u (voiceover (scenes plan ! i)))"
    using assms(2) by (simp only: buildSceneLabel_spec)
  moreover have "length (scenes plan) = 1 \<longrightarrow> label (scenes plan ! i) = js ''Opening Hook''"
    using l assms(2) by (simp add: spec_label_def)
  ultimately show ?thesis by simp
qed

theorem label_rule_witness:
  "generateVideoScript ascii_casing sample_form = Inr sample_plan
   \<and> (1 :: nat) < length (scenes sample_plan)
   \<and> label (scenes sample_plan ! 1) = js ''Learning Beat''
   \<and> label (scenes sample_plan ! 1)
       = spec_label 1 (length (scenes sample_plan))
           (toLowerCase ascii_casing (voiceover (scenes sample_plan ! 1)))"
proof -
  have h: "(1 :: nat) < length (scenes sample_plan)"
    by (simp add: sample_plan_def)
  have "label (scenes sample_plan ! 1) = js ''Learning Beat''"
    by (simp add: sample_plan_def)
  then show ?thesis
    using sample_eval h label_rule [OF sample_eval h] by simp
qed
section \<open>Keywords\<close>

subsection \<open>Splitting\<close>

lemma pieces_no_separator: "\<forall>c \<in> set a. \<not> sep c \<Longrightarrow> pieces sep a = [a]"
  by (induction a) auto

lemma pieces_first_separator:
  "\<forall>c \<in> set a. \<not> sep c \<Longrightarrow> sep d \<Longrightarrow> pieces sep (a @ d # rest) = a # pieces sep rest"
  by (induction a) auto

lemma pieces_skip:
  "filter (\<lambda>w. w \<noteq> []) (pieces sep (dropWhile sep s)) = filter (\<lambda>w. w \<noteq> []) (pieces sep s)"
  by (induction s) auto


lemma split_runs_pieces:
  "filter (\<lambda>w. w \<noteq> []) (split_runs sep s) = filter (\<lambda>w. w \<noteq> []) (pieces sep s)"
proof (induction sep s rule: split_runs.induct)
  case (1 sep s)
  show ?case
  proof (cases "dropWhile (\<lambda>c. \<not> sep c) s")
    case Nil
    have sp: "split_runs sep s = [s]"
      by (subst split_runs.simps) (simp only: Nil list.case)
    have "\<forall>c \<in> set s. \<not> sep c" using Nil by (simp add: dropWhile_eq_Nil_conv)
    then have "pieces sep s = [s]" by (rule pieces_no_separator)
    then show ?thesis by (simp only: sp)
  next
    case (Cons d rest)
    have sp: "split_runs sep s = takeWhile (\<lambda>c. \<not> sep c) s # split_runs sep (dropWhile sep rest)"
      by (subst split_runs.simps) (simp only: Cons list.case)
    have d: "sep d"
      using hd_dropWhile [of "\<lambda>c. \<not> sep c" s] by (simp add: Cons)
    have s: "s = takeWhile (\<lambda>c. \<not> sep c) s @ d # rest"
      using takeWhile_dropWhile_id [of "\<lambda>c. \<not> sep c" s] by (simp only: Cons)
    have tw: "\<forall>c \<in> set (takeWhile (\<lambda>c. \<not> sep c) s). \<not> sep c"
      by (auto dest: set_takeWhileD)
    have "pieces sep (takeWhile (\<lambda>c. \<not> sep c) s @ d # rest)
            = takeWhile (\<lambda>c. \<not> sep c) s # pieces sep rest"
      by (rule pieces_first_separator [OF tw d])
    then have p: "pieces sep s = takeWhile (\<lambda>c. \<not> sep c) s # pieces sep rest"
      using s by simp
    have "filter (\<lambda>w. w \<noteq> []) (split_runs sep (dropWhile sep rest))
            = filter (\<lambda>w. w \<noteq> []) (pieces sep (dropWhile sep rest))"
      using "1.IH" Cons by simp
    then have "filter (\<lambda>w. w \<noteq> []) (split_runs sep (dropWhile sep rest))
            = filter (\<lambda>w. w \<noteq> []) (pieces sep rest)"
      by (simp only: pieces_skip)
    then show ?thesis by (simp add: sp p)
  qed
qed

lemma pieces_of_tokens:
  "pieces is_space
     (map (\<lambda>c. if is_lower c \<or> is_digit c \<or> is_space c then c else ch (CHR '' '')) s)
     = pieces (\<lambda>c. \<not> (is_lower c \<or> is_digit c)) s"
proof (induction s)
  case Nil
  then show ?case by simp
next
  case (Cons c cs)
  have sp: "is_space (ch (CHR '' ''))" by (simp add: is_space_def ch_def)
  have "is_lower c \<or> is_digit c \<Longrightarrow> \<not> is_space c"
    by (auto simp: is_space_def is_lower_def is_digit_def)
  then show ?case using Cons sp by auto
qed

lemma filter_trim:
  "filter (\<lambda>k. k \<noteq> []) (map trim xs)
     = filter (\<lambda>k. k \<noteq> []) (map trim (filter (\<lambda>k. k \<noteq> []) xs))"
  by (induction xs) (auto simp: trim_def)

lemma providedKeywords_spec: "providedKeywords u raw = spec_caller_keywords u raw"
proof -
  let ?sep = "\<lambda>c. c = ch (CHR '','') \<or> c = ch (CHR '';'') \<or> c = 0x0A"
  have sep: "(\<lambda>c. c \<in> set [ch (CHR '',''), ch (CHR '';''), 0x0A]) = ?sep" by auto
  have "filter (\<lambda>k. k \<noteq> []) (map trim (split_runs ?sep raw))
          = filter (\<lambda>k. k \<noteq> []) (map trim (filter (\<lambda>k. k \<noteq> []) (split_runs ?sep raw)))"
    by (rule filter_trim)
  also have "\<dots> = filter (\<lambda>k. k \<noteq> []) (map trim (filter (\<lambda>k. k \<noteq> []) (pieces ?sep raw)))"
    by (simp only: split_runs_pieces)
  also have "\<dots> = filter (\<lambda>k. k \<noteq> []) (map trim (pieces ?sep raw))"
    by (rule filter_trim [symmetric])
  finally show ?thesis
    by (simp only: providedKeywords_def spec_caller_keywords_def sep non_empty_def [abs_def])
qed

lemma filter_long:
  "filter (\<lambda>w. 2 < length w \<and> Q w) xs
     = filter (\<lambda>w. 2 < length w \<and> Q w) (filter (\<lambda>w. w \<noteq> []) xs)"
  by (induction xs) auto

lemma words_of_tokens:
  "filter (\<lambda>w. length w > 2 \<and> w \<notin> set STOP_WORDS) (tokenize u t)
     = filter (\<lambda>w. 2 < length w \<and> w \<notin> set STOP_WORDS) (spec_tokens u t)"
proof -
  have "filter (\<lambda>w. w \<noteq> []) (tokenize u t) = spec_tokens u t"
    by (simp only: tokenize_def spec_tokens_def split_runs_pieces pieces_of_tokens)
  then show ?thesis
    using filter_long [of "\<lambda>w. w \<notin> set STOP_WORDS" "tokenize u t"] by simp
qed


subsection \<open>The set and the map of the code\<close>




lemma set_add_dedupe:
  "foldl set_add acc xs = acc @ dedupe_by (\<lambda>x. x) (filter (\<lambda>x. x \<notin> set acc) xs)"
proof (induction xs arbitrary: acc)
  case Nil
  then show ?case by simp
next
  case (Cons x xs)
  show ?case
  proof (cases "x \<in> set acc")
    case True
    then show ?thesis using Cons [of acc] by (simp add: set_add_def)
  next
    case False
    have "filter (\<lambda>y. y \<noteq> x) (filter (\<lambda>y. y \<notin> set acc) xs)
            = filter (\<lambda>y. y \<notin> set (acc @ [x])) xs"
      unfolding filter_filter by (intro filter_cong) auto
    then show ?thesis
      using False Cons [of "acc @ [x]"] by (simp add: set_add_def)
  qed
qed

lemma array_from_set_dedupe: "array_from_set xs = dedupe_by (\<lambda>x. x) xs"
  using set_add_dedupe [of "[]" xs] by (simp add: array_from_set_def)

lemma count_word_fst: "map fst (count_word m w) = set_add (map fst m) w"
  by (induction m w rule: count_word.induct) (auto simp: set_add_def)

lemma counts_fst: "map fst (foldl count_word m ws) = foldl set_add (map fst m) ws"
  by (induction ws arbitrary: m) (simp_all add: count_word_fst)

lemma count_word_keys: "fst ` set (count_word m w) = insert w (fst ` set m)"
  by (induction m w rule: count_word.induct) auto

lemma count_word_lookup:
  "map_of (count_word m w) k
     = (if k = w then Some (case map_of m w of None \<Rightarrow> 1 | Some n \<Rightarrow> n + 1) else map_of m k)"
  by (induction m w rule: count_word.induct) auto

lemma count_word_distinct: "distinct (map fst m) \<Longrightarrow> distinct (map fst (count_word m w))"
proof (induction m w rule: count_word.induct)
  case (1 w)
  then show ?case by simp
next
  case (2 k n rest w)
  then show ?case
    by (auto simp: count_word_keys)
qed

lemma counts_lookup:
  "map_of (foldl count_word m ws) k
     = (case map_of m k of
          None \<Rightarrow> if k \<in> set ws then Some (count_list ws k) else None
        | Some n \<Rightarrow> Some (n + count_list ws k))"
proof (induction ws arbitrary: m)
  case Nil
  then show ?case by (simp split: option.splits)
next
  case (Cons w ws)
  show ?case
    by (simp add: Cons.IH count_word_lookup split: option.splits)
qed

lemma counts_distinct: "distinct (map fst m) \<Longrightarrow> distinct (map fst (foldl count_word m ws))"
  by (induction ws arbitrary: m) (auto simp: count_word_distinct)

lemma counts_value:
  assumes "(w, n) \<in> set (foldl count_word [] ws)"
  shows "n = count_list ws w"
proof -
  have "distinct (map fst (foldl count_word [] ws))" by (rule counts_distinct) simp
  then have "map_of (foldl count_word [] ws) w = Some n" using assms by simp
  then show ?thesis by (simp add: counts_lookup split: if_splits)
qed

subsection \<open>Ranking\<close>

lemma insort_key_map:
  assumes "f x = g (h x)" and "\<forall>y \<in> set ys. f y = g (h y)"
  shows "map h (insort_key f x ys) = insort_key g (h x) (map h ys)"
  using assms by (induction ys) auto

lemma sort_key_map:
  assumes "\<forall>x \<in> set xs. f x = g (h x)"
  shows "map h (sort_key f xs) = sort_key g (map h xs)"
  using assms
proof (induction xs)
  case Nil
  then show ?case by simp
next
  case (Cons x xs)
  have "map h (insort_key f x (sort_key f xs)) = insort_key g (h x) (map h (sort_key f xs))"
    using Cons.prems by (intro insort_key_map) auto
  then show ?case using Cons by simp
qed

lemma rank_of_counts:
  "map fst (sort_key (\<lambda>(w, n). - int n) (foldl count_word [] ws)) = rank_by_frequency ws"
proof -
  let ?counts = "foldl count_word [] ws"
  have "\<forall>p \<in> set ?counts. (\<lambda>(w, n). - int n) p = (\<lambda>w. - int (count_list ws w)) (fst p)"
    using counts_value [of _ _ ws] by auto
  then have "map fst (sort_key (\<lambda>(w, n). - int n) ?counts)
      = sort_key (\<lambda>w. - int (count_list ws w)) (map fst ?counts)"
    by (rule sort_key_map)
  moreover have "map fst ?counts = dedupe_by (\<lambda>x. x) ws"
    using counts_fst [of "[]" ws] array_from_set_dedupe [of ws] by (simp add: array_from_set_def)
  ultimately show ?thesis
    by (simp add: rank_by_frequency_def)
qed

lemma extractKeywordsFromStory_spec:
  "extractKeywordsFromStory u t = spec_derived_keywords u t"
  by (simp only: extractKeywordsFromStory_def Let_def take_map [symmetric] rank_of_counts
      spec_derived_keywords_def words_of_tokens)



lemma keywords_of_plan:
  assumes "generateVideoScript u form = Inr plan"
  shows "vs_keywords plan
           = map (replace_word_ai False)
               (dedupe_by (\<lambda>k. k)
                 (spec_caller_keywords u (keywords_raw form)
                  @ spec_derived_keywords u (topic form @ js ''. '' @ trimmed_story form)))"
proof -
  have "vs_keywords plan = deriveKeywords u (topic form) (trimmed_story form) (keywords_raw form)"
    using generate_Inr [OF assms] by auto
  then show ?thesis
    by (simp only: deriveKeywords_def Let_def providedKeywords_spec
        extractKeywordsFromStory_spec array_from_set_dedupe)
qed






section \<open>The replacement of the word \<^verbatim>\<open>ai\<close>\<close>

lemma is_word_char_lower: "is_word_char (lower_char c) = is_word_char c"
proof (cases "is_upper c")
  case True
  then have "is_lower (lower_char c)"
    by (auto simp: lower_char_def is_upper_def is_lower_def)
  then show ?thesis using True by (simp add: is_word_char_def)
next
  case False
  then show ?thesis by (simp add: lower_char_def)
qed

lemma letters_a_i: "is_word_char (ch (CHR ''a''))" "is_word_char (ch (CHR ''i''))"
  "lower_char (ch (CHR ''A'')) = ch (CHR ''a'')" "lower_char (ch (CHR ''I'')) = ch (CHR ''i'')"
  by (simp_all add: is_word_char_def is_lower_def is_upper_def lower_char_def ch_def)

lemma lower_a_word: "lower_char c = ch (CHR ''a'') \<Longrightarrow> is_word_char c"
  using is_word_char_lower [of c] letters_a_i(1) by simp

lemma lower_i_word: "lower_char c = ch (CHR ''i'') \<Longrightarrow> is_word_char c"
  using is_word_char_lower [of c] letters_a_i(2) by simp

lemma word_ai_at_from: "word_ai_at s i = word_ai_from False s i"
  by (auto simp: word_ai_at_def word_ai_from_def)

lemma rwa_length: "length (replace_word_ai p s) = length s"
  by (induction p s rule: replace_word_ai.induct) auto

lemma rwa_lower: "map lower_char (replace_word_ai p s) = map lower_char s"
  by (induction p s rule: replace_word_ai.induct) (auto simp: letters_a_i)

lemma lower_nth:
  assumes "map lower_char s = map lower_char t" and "j < length s"
  shows "lower_char (s ! j) = lower_char (t ! j)"
proof -
  have "length s = length t" using assms(1) by (rule map_eq_imp_length_eq)
  then have "map lower_char s ! j = lower_char (s ! j)" "map lower_char t ! j = lower_char (t ! j)"
    using assms(2) by simp_all
  then show ?thesis using assms(1) by simp
qed

lemma word_nth:
  assumes "map lower_char s = map lower_char t" and "j < length s"
  shows "is_word_char (s ! j) = is_word_char (t ! j)"
  using lower_nth [OF assms] is_word_char_lower [of "s ! j"] is_word_char_lower [of "t ! j"]
  by simp

lemma word_ai_at_cong:
  assumes "map lower_char s = map lower_char t"
  shows "word_ai_at s i = word_ai_at t i"
proof -
  have len: "length s = length t" using assms by (rule map_eq_imp_length_eq)
  show ?thesis
  proof (cases "i + 1 < length s")
    case False
    then show ?thesis using len by (simp add: word_ai_at_def ai_at_def)
  next
    case True
    have a: "lower_char (s ! i) = lower_char (t ! i)"
      and b: "lower_char (s ! (i + 1)) = lower_char (t ! (i + 1))"
      using lower_nth [OF assms] True by auto
    have c: "0 < i \<Longrightarrow> is_word_char (s ! (i - 1)) = is_word_char (t ! (i - 1))"
      using word_nth [OF assms, of "i - 1"] True by simp
    have d: "i + 2 \<noteq> length s \<Longrightarrow> is_word_char (s ! (i + 2)) = is_word_char (t ! (i + 2))"
      using word_nth [OF assms, of "i + 2"] True by simp
    show ?thesis
      unfolding word_ai_at_def ai_at_def using a b c d len by auto
  qed
qed

lemma rwa_hit:
  "word_ai_from p s i \<Longrightarrow>
     replace_word_ai p s ! i = ch (CHR ''A'') \<and> replace_word_ai p s ! (i + 1) = ch (CHR ''I'')"
proof (induction p s arbitrary: i rule: replace_word_ai.induct)
  case (1 prev a b rest)
  let ?m = "lower_char a = ch (CHR ''a'') \<and> lower_char b = ch (CHR ''i'') \<and> \<not> prev
         \<and> (case rest of [] \<Rightarrow> True | r # _ \<Rightarrow> \<not> is_word_char r)"
  note hyp = "1.prems" [unfolded word_ai_from_def ai_at_def]
  show ?case
  proof (cases ?m)
    case True
    then have r: "replace_word_ai prev (a # b # rest)
                    = ch (CHR ''A'') # ch (CHR ''I'') # replace_word_ai True rest"
      by simp
    have bw: "is_word_char b" using True lower_i_word by blast
    show ?thesis
    proof (cases i)
      case 0
      then show ?thesis unfolding r by simp
    next
      case i1: (Suc i1)
      show ?thesis
      proof (cases i1)
        case 0
        then have "lower_char b = ch (CHR ''a'')" using hyp i1 by simp
        then show ?thesis using True by (simp add: ch_def)
      next
        case (Suc j)
        have "word_ai_from True rest j"
          using hyp i1 Suc bw by (cases j) (auto simp: word_ai_from_def ai_at_def)
        then have "replace_word_ai True rest ! j = ch (CHR ''A'')
             \<and> replace_word_ai True rest ! (j + 1) = ch (CHR ''I'')"
          by (rule "1.IH"(1) [OF True])
        then show ?thesis unfolding r using i1 Suc by simp
      qed
    qed
  next
    case False
    then have r: "replace_word_ai prev (a # b # rest)
                    = a # replace_word_ai (is_word_char a) (b # rest)"
      by (simp only: replace_word_ai.simps if_False)
    show ?thesis
    proof (cases i)
      case 0
      then have "?m" using hyp by (cases rest) auto
      then show ?thesis using False by simp
    next
      case (Suc j)
      have "word_ai_from (is_word_char a) (b # rest) j"
        using hyp Suc by (cases j) (auto simp: word_ai_from_def ai_at_def)
      then have "replace_word_ai (is_word_char a) (b # rest) ! j = ch (CHR ''A'')
           \<and> replace_word_ai (is_word_char a) (b # rest) ! (j + 1) = ch (CHR ''I'')"
        by (rule "1.IH"(2) [OF False])
      then show ?thesis unfolding r using Suc by simp
    qed
  qed
next
  case (2 prev a)
  then show ?case by (simp add: word_ai_from_def ai_at_def)
next
  case (3 prev)
  then show ?case by (simp add: word_ai_from_def ai_at_def)
qed

lemma rwa_word_ai:
  assumes "word_ai_at (replace_word_ai False k) i"
  shows "replace_word_ai False k ! i = ch (CHR ''A'') \<and> replace_word_ai False k ! (i + 1) = ch (CHR ''I'')"
proof -
  have "word_ai_at k i" using assms word_ai_at_cong [OF rwa_lower, of False k i] by simp
  then show ?thesis using rwa_hit [of False k i] by (simp add: word_ai_at_from)
qed

text \<open>
  C7, as stated, has every occurrence of \<^verbatim>\<open>ai\<close> in an entry of the keyword list turned
  to upper case, also inside a longer word such as maintain. The code replaces whole
  words only: for the sample request the list holds the entry \<^verbatim>\<open>maintain\<close>, in which
  \<^verbatim>\<open>ai\<close> occurs at position 1 in lower case.
\<close>

theorem ai_inside_word_counterexample:
  "generateVideoScript ascii_casing sample_form = Inr sample_plan
   \<and> js ''maintain'' \<in> set (vs_keywords sample_plan)
   \<and> ai_at (js ''maintain'') 1
   \<and> js ''maintain'' ! 1 = ch (CHR ''a'') \<and> js ''maintain'' ! 2 = ch (CHR ''i'')"
proof -
  have "ai_at (js ''maintain'') 1"
    by (simp add: ai_at_def lower_char_def is_upper_def js_def ch_def)
  then show ?thesis using sample_eval by (simp add: sample_plan_def js_def ch_def)
qed

text \<open>
  C7, amended. In the keyword list of every plan, every occurrence of \<^verbatim>\<open>ai\<close>, in any
  case, that is a whole word of its entry (no letter, digit or underscore before or after
  it) is rendered as \<^verbatim>\<open>AI\<close>.
\<close>

theorem whole_word_ai_uppercase:
  assumes "generateVideoScript u form = Inr plan"
    and "e \<in> set (vs_keywords plan)"
    and "word_ai_at e i"
  shows "e ! i = ch (CHR ''A'') \<and> e ! (i + 1) = ch (CHR ''I'')"
proof -
  have "\<exists>ks. vs_keywords plan = map (replace_word_ai False) ks"
    using keywords_of_plan [OF assms(1)] by blast
  then obtain k where "e = replace_word_ai False k" using assms(2) by auto
  then show ?thesis using assms(3) rwa_word_ai [of k i] by simp
qed

theorem whole_word_ai_uppercase_witness:
  "generateVideoScript ascii_casing sample_form = Inr sample_plan
   \<and> js ''AI'' \<in> set (vs_keywords sample_plan)
   \<and> word_ai_at (js ''AI'') 0
   \<and> js ''AI'' ! 0 = ch (CHR ''A'') \<and> js ''AI'' ! (0 + 1) = ch (CHR ''I'')"
proof -
  have h2: "js ''AI'' \<in> set (vs_keywords sample_plan)" by (simp add: sample_plan_def)
  have h4: "js ''AI'' ! 0 = ch (CHR ''A'') \<and> js ''AI'' ! (0 + 1) = ch (CHR ''I'')"
    by (simp add: js_def)
  have h3: "word_ai_at (js ''AI'') 0"
    by (simp add: word_ai_at_def ai_at_def lower_char_def is_upper_def js_def ch_def)
  show ?thesis
    using sample_eval h2 h3 whole_word_ai_uppercase [OF sample_eval h2 h3] by simp
qed

section \<open>Overlays\<close>

lemma replace_ai_length: "length (replace_ai s) = length s"
  by (induction s rule: replace_ai.induct) auto

lemma replace_ai_lower: "map lower_char (replace_ai s) = map lower_char s"
  by (induction s rule: replace_ai.induct) (auto simp: letters_a_i)

lemma replace_ai_hit:
  "ai_at s i \<Longrightarrow> replace_ai s ! i = ch (CHR ''A'') \<and> replace_ai s ! (i + 1) = ch (CHR ''I'')"
proof (induction s arbitrary: i rule: replace_ai.induct)
  case (1 a b rest)
  note hyp = "1.prems" [unfolded ai_at_def]
  let ?m = "lower_char a = ch (CHR ''a'') \<and> lower_char b = ch (CHR ''i'')"
  show ?case
  proof (cases ?m)
    case True
    then have r: "replace_ai (a # b # rest) = ch (CHR ''A'') # ch (CHR ''I'') # replace_ai rest"
      by simp
    show ?thesis
    proof (cases i)
      case 0
      then show ?thesis unfolding r by simp
    next
      case i1: (Suc i1)
      show ?thesis
      proof (cases i1)
        case 0
        then have "lower_char b = ch (CHR ''a'')" using hyp i1 by simp
        then show ?thesis using True by (simp add: ch_def)
      next
        case (Suc j)
        have "ai_at rest j" using hyp i1 Suc by (simp add: ai_at_def)
        then have "replace_ai rest ! j = ch (CHR ''A'') \<and> replace_ai rest ! (j + 1) = ch (CHR ''I'')"
          by (rule "1.IH"(1) [OF True])
        then show ?thesis unfolding r using i1 Suc by simp
      qed
    qed
  next
    case False
    then have r: "replace_ai (a # b # rest) = a # replace_ai (b # rest)"
      by (simp only: replace_ai.simps if_False)
    show ?thesis
    proof (cases i)
      case 0
      then have "?m" using hyp by simp
      then show ?thesis using False by simp
    next
      case (Suc j)
      have "ai_at (b # rest) j" using hyp Suc by (simp add: ai_at_def)
      then have "replace_ai (b # rest) ! j = ch (CHR ''A'')
           \<and> replace_ai (b # rest) ! (j + 1) = ch (CHR ''I'')"
        by (rule "1.IH"(2) [OF False])
      then show ?thesis unfolding r using Suc by simp
    qed
  qed
next
  case (2 a)
  then show ?case by (simp add: ai_at_def)
next
  case 3
  then show ?case by (simp add: ai_at_def)
qed

lemma condense_example:
  "condense (replace_ai (js ''You maintain systems.'')) = js ''You mAIntAIn systems''"
  by (simp add: ev)

lemma overlay_example:
  "createOverlay u (js ''You maintain systems.'') keyword
     = toUpperCase u (js ''Y'') @ js ''ou mAIntAIn systems''"
proof -
  have "js ''You mAIntAIn systems'' = ch (CHR ''Y'') # js ''ou mAIntAIn systems''"
    by (simp add: js_def)
  then have "capitalize u (js ''You mAIntAIn systems'')
      = toUpperCase u (js ''Y'') @ js ''ou mAIntAIn systems''"
    by (simp add: capitalize_def js_def)
  moreover have "js ''You mAIntAIn systems'' \<noteq> []" by (simp add: js_def)
  ultimately show ?thesis by (simp add: createOverlay_def condense_example)
qed

lemma overlay_example_ascii:
  "createOverlay ascii_casing (js ''You maintain systems.'') keyword = js ''You mAIntAIn systems''"
  unfolding overlay_example
  by (simp add: ascii_casing_def upper_char_def is_lower_def js_def ch_def)

text \<open>
  C10. Before it condenses the beat, \<open>createOverlay\<close> turns every occurrence of \<^verbatim>\<open>ai\<close>,
  in any case and anywhere in the beat, also inside a longer word, into \<^verbatim>\<open>AI\<close>, and
  changes nothing else but the case of these letters; the overlay is made from the result.
  The beat \<^verbatim>\<open>You maintain systems.\<close> gives the overlay \<^verbatim>\<open>You mAIntAIn systems\<close>, its
  first letter in upper case.
\<close>

theorem overlay_uppercases_ai:
  assumes "ai_at voice i"
  shows "replace_ai voice ! i = ch (CHR ''A'') \<and> replace_ai voice ! (i + 1) = ch (CHR ''I'')
       \<and> length (replace_ai voice) = length voice
       \<and> map lower_char (replace_ai voice) = map lower_char voice
       \<and> createOverlay u voice keyword
           = (if condense (replace_ai voice) \<noteq> [] then capitalize u (condense (replace_ai voice))
              else js ''Key idea: '' @ capitalize u keyword)
       \<and> createOverlay u (js ''You maintain systems.'') keyword
           = toUpperCase u (js ''Y'') @ js ''ou mAIntAIn systems''
       \<and> createOverlay ascii_casing (js ''You maintain systems.'') keyword
           = js ''You mAIntAIn systems''"
  using replace_ai_hit [OF assms] replace_ai_length [of voice] replace_ai_lower [of voice]
    overlay_example [of u keyword] overlay_example_ascii [of keyword]
  by (simp add: createOverlay_def Let_def)

theorem overlay_uppercases_ai_witness:
  "ai_at (js ''You maintain systems.'') 5
   \<and> replace_ai (js ''You maintain systems.'') ! 5 = ch (CHR ''A'')
   \<and> replace_ai (js ''You maintain systems.'') ! (5 + 1) = ch (CHR ''I'')
   \<and> generateVideoScript ascii_casing sample_form = Inr sample_plan
   \<and> voiceover (scenes sample_plan ! 2) = js ''You maintain systems.''
   \<and> overlay (scenes sample_plan ! 2) = js ''You mAIntAIn systems''"
proof -
  have h: "ai_at (js ''You maintain systems.'') 5"
    by (simp add: ai_at_def lower_char_def is_upper_def js_def ch_def)
  have "voiceover (scenes sample_plan ! 2) = js ''You maintain systems.''"
    and "overlay (scenes sample_plan ! 2) = js ''You mAIntAIn systems''"
    by (simp_all add: sample_plan_def)
  then show ?thesis
    using h sample_eval overlay_uppercases_ai [OF h, of ascii_casing "js ''AI''"] by simp
qed
section \<open>The form read back from its URL parameters\<close>

lemma to_usv_well_formed: "well_formed s \<Longrightarrow> to_usv s = s"
  by (induction s rule: to_usv.induct) (auto split: if_splits)

lemma ch_no_surrogate: "\<not> is_high_surrogate (ch c) \<and> \<not> is_low_surrogate (ch c)"
proof -
  have "(of_char c :: nat) < 256" by (rule nat_of_char_less_256)
  then show ?thesis
    unfolding ch_def is_high_surrogate_def is_low_surrogate_def by linarith
qed

lemma well_formed_js: "well_formed (js s)"
  unfolding js_def by (induction s rule: induct_list012) (auto simp: ch_no_surrogate)

lemma to_usv_js: "to_usv (js s) = js s"
  using well_formed_js by (rule to_usv_well_formed)

lemma buildSearchParams_pairs:
  "buildSearchParams r =
     [(js ''topic'', to_usv (topic r)), (js ''story'', to_usv (story r)),
      (js ''aspect_ratio'', to_usv (aspectRatio r)), (js ''mood'', to_usv (mood r)),
      (js ''keywords'', to_usv (keywords_raw r)), (js ''language'', to_usv (language r))]"
proof -
  have "buildSearchParams r =
      set_pair (set_pair (set_pair (set_pair (set_pair (set_pair []
        (js ''topic'') (to_usv (topic r))) (js ''story'') (to_usv (story r)))
        (js ''aspect_ratio'') (to_usv (aspectRatio r))) (js ''mood'') (to_usv (mood r)))
        (js ''keywords'') (to_usv (keywords_raw r))) (js ''language'') (to_usv (language r))"
    by (simp only: buildSearchParams_def Let_def usp_set_def to_usv_js)
  then show ?thesis by (simp add: js_def ch_def)
qed

lemma load_build:
  "loadFormFromParams (Some (buildSearchParams r)) =
     \<lparr>topic = to_usv (topic r), story = to_usv (story r), aspectRatio = to_usv (aspectRatio r),
      mood = to_usv (mood r), keywords_raw = to_usv (keywords_raw r),
      language = to_usv (language r)\<rparr>"
proof -
  have "usp_get (buildSearchParams r) (js ''topic'') = Some (to_usv (topic r))"
    and "usp_get (buildSearchParams r) (js ''story'') = Some (to_usv (story r))"
    and "usp_get (buildSearchParams r) (js ''aspect_ratio'') = Some (to_usv (aspectRatio r))"
    and "usp_get (buildSearchParams r) (js ''mood'') = Some (to_usv (mood r))"
    and "usp_get (buildSearchParams r) (js ''keywords'') = Some (to_usv (keywords_raw r))"
    and "usp_get (buildSearchParams r) (js ''language'') = Some (to_usv (language r))"
    unfolding usp_get_def to_usv_js buildSearchParams_pairs by (simp_all add: js_def ch_def)
  then show ?thesis
    by (simp add: loadFormFromParams_def or_else_def)
qed

text \<open>
  C9, as stated, has every request read back unchanged from the parameters that encode
  it. \<^verbatim>\<open>URLSearchParams.set\<close> takes its arguments as \<^verbatim>\<open>USVString\<close>: a request whose
  topic is a surrogate code unit without its partner, here U+D800 alone, is read back
  with the topic U+FFFD.
\<close>

theorem url_roundtrip_counterexample:
  "topic surrogate_form = [0xD800]
   \<and> topic (loadFormFromParams (Some (buildSearchParams surrogate_form))) = [0xFFFD]
   \<and> loadFormFromParams (Some (buildSearchParams surrogate_form)) \<noteq> surrogate_form"
proof -
  have a: "topic surrogate_form = [0xD800]" by (simp add: surrogate_form_def)
  have b: "topic (loadFormFromParams (Some (buildSearchParams surrogate_form))) = [0xFFFD]"
    by (simp add: load_build surrogate_form_def is_high_surrogate_def)
  have "topic (loadFormFromParams (Some (buildSearchParams surrogate_form)))
      \<noteq> topic surrogate_form"
    unfolding a b by simp
  then have "loadFormFromParams (Some (buildSearchParams surrogate_form)) \<noteq> surrogate_form"
    by auto
  with a b show ?thesis by (intro conjI)
qed

text \<open>
  C9, amended. For every request whose six strings are well formed, that is, have no
  surrogate code unit outside a pair of a high and a low one, the request read by
  \<open>loadFormFromParams\<close> from the parameters that \<open>buildSearchParams\<close> makes of it is
  the request itself, in all six fields, empty strings included.
\<close>

theorem url_roundtrip:
  assumes "well_formed_form r"
  shows "loadFormFromParams (Some (buildSearchParams r)) = r"
  using assms by (simp add: load_build well_formed_form_def to_usv_well_formed)

theorem url_roundtrip_witness:
  "well_formed_form emoji_form
   \<and> topic emoji_form = js ''Hi '' @ [0xD83D, 0xDE00] \<and> aspectRatio emoji_form = []
   \<and> loadFormFromParams (Some (buildSearchParams emoji_form)) = emoji_form"
proof -
  have h: "well_formed_form emoji_form"
    by (simp add: well_formed_form_def emoji_form_def js_def ch_def is_high_surrogate_def
        is_low_surrogate_def)
  show ?thesis
    using h url_roundtrip [OF h] by (simp add: emoji_form_def)
qed

end
